theory Spec2Isabelle
  imports Main "HOL-Library.Word"
begin

unbundle bit_operations_syntax

section \<open>Data model\<close>

text \<open>
  The firmware (version 9.4.2) keeps every simulated station in a \<open>VirtualDevice\<close>
  struct. Bytes are \<open>uint8_t\<close>, the sequence number is a \<open>uint16_t\<close>, times are
  \<open>unsigned long\<close> (32 bit on the target). A MAC address is a \<open>uint8_t[6]\<close>: six
  bytes, never more or fewer, hence a six-tuple.
\<close>

type_synonym byte = "8 word"
type_synonym mac_addr = "byte \<times> byte \<times> byte \<times> byte \<times> byte \<times> byte"
type_synonym millis_t = "32 word"

fun mac_bytes :: "mac_addr \<Rightarrow> byte list" where
  "mac_bytes (a, b, c, d, e, f) = [a, b, c, d, e, f]"

datatype DeviceGen = GEN_LEGACY | GEN_COMMON | GEN_MODERN

datatype OSPlatform = PLATFORM_IOS | PLATFORM_ANDROID | PLATFORM_OTHER

record VirtualDevice =
  mac :: mac_addr
  bssid_target :: mac_addr
  sequenceNumber :: "16 word"
  preferredSSIDIndex :: int
  generation :: DeviceGen
  platform :: OSPlatform
  hasConnected :: bool
  txPower :: int

subsection \<open>Configuration constants\<close>

definition MESH_CHANNEL :: int where "MESH_CHANNEL = 1"
definition MESH_ACTIVE_INTERVAL_MS :: millis_t where "MESH_ACTIVE_INTERVAL_MS = 600000"
definition MESH_STANDBY_INTERVAL_MS :: millis_t where "MESH_STANDBY_INTERVAL_MS = 20000"
definition MESH_CHECK_DURATION_MS :: millis_t where "MESH_CHECK_DURATION_MS = 100"
definition MESH_RELAY_CHANCE :: nat where "MESH_RELAY_CHANCE = 5"
definition MESH_DECAY_TIMEOUT_MS :: millis_t where "MESH_DECAY_TIMEOUT_MS = 600000"
definition MAX_MESH_QUEUE_SIZE :: nat where "MAX_MESH_QUEUE_SIZE = 40"
definition SENDER_TRACK_WINDOW_MS :: millis_t where "SENDER_TRACK_WINDOW_MS = 300000"

definition TARGET_ACTIVE_POOL :: nat where "TARGET_ACTIVE_POOL = 1500"
definition TARGET_DORMANT_POOL :: nat where "TARGET_DORMANT_POOL = 3000"
definition MAX_SSIDS_TO_LEARN :: nat where "MAX_SSIDS_TO_LEARN = 200"
definition CYCLE_CAP_BUFFER :: nat where "CYCLE_CAP_BUFFER = 5"
definition LEARN_INTERVAL_MS :: millis_t where "LEARN_INTERVAL_MS = 2400"
definition CYCLE_INTERVAL_MS :: millis_t where "CYCLE_INTERVAL_MS = 10000"
definition NUM_SEED_SSIDS :: nat where "NUM_SEED_SSIDS = 30"

definition MIN_PACKETS_PER_HOP :: nat where "MIN_PACKETS_PER_HOP = 20"
definition MAX_PACKETS_PER_HOP :: nat where "MAX_PACKETS_PER_HOP = 45"

definition POWER_LEVELS :: "int list" where "POWER_LEVELS = [72, 74, 76, 78, 80, 82]"
definition MIN_TX_POWER :: int where "MIN_TX_POWER = 72"
definition MAX_TX_POWER :: int where "MAX_TX_POWER = 82"

definition CHANNELS_2G :: "int list" where
  "CHANNELS_2G = [1, 6, 11, 2, 7, 3, 8, 4, 9, 5, 10]"
definition CHANNELS_5G :: "int list" where
  "CHANNELS_5G = [36, 149, 40, 153, 44, 157, 48, 161, 165]"
definition NUM_CHANNELS_2G :: nat where "NUM_CHANNELS_2G = 11"
definition NUM_CHANNELS_5G :: nat where "NUM_CHANNELS_5G = 9"

subsection \<open>Vendor OUI tables\<close>

type_synonym oui = "byte \<times> byte \<times> byte"

definition OUI_APPLE :: "oui list" where
  "OUI_APPLE =
    [(0xFC,0xFC,0x48), (0xBC,0xD0,0x74), (0xAC,0x1F,0x0F), (0xF0,0xD4,0x15),
     (0xF0,0x98,0x9D), (0x34,0x14,0x5F), (0xDC,0xA9,0x04), (0x28,0xCF,0xE9),
     (0xAC,0xBC,0x32), (0xE4,0xCE,0x8F), (0xBC,0x9F,0xEF), (0x48,0x4B,0xAA),
     (0x88,0x66,0x5A), (0x1C,0x91,0x48), (0x60,0xFA,0xCD)]"
definition NUM_OUI_APPLE :: nat where "NUM_OUI_APPLE = 15"

definition OUI_SAMSUNG :: "oui list" where
  "OUI_SAMSUNG =
    [(0x24,0xFC,0xEE), (0x8C,0x96,0xD4), (0x5C,0xCB,0x99), (0x34,0x21,0x09),
     (0x84,0x25,0xDB), (0x00,0xE0,0x64), (0x80,0xEA,0x96), (0x38,0x01,0x95),
     (0xB0,0xC0,0x90), (0xFC,0xC2,0xDE)]"
definition NUM_OUI_SAMSUNG :: nat where "NUM_OUI_SAMSUNG = 10"

definition OUI_LEGACY_IOT :: "oui list" where
  "OUI_LEGACY_IOT =
    [(0x00,0x14,0x38), (0x00,0x0D,0x93), (0x00,0x1F,0x32), (0x00,0x16,0x35),
     (0x00,0x04,0xBD), (0x00,0x17,0xE0), (0x00,0x1B,0x7A)]"
definition NUM_OUI_IOT :: nat where "NUM_OUI_IOT = 7"

definition OUI_MODERN_GEN :: "oui list" where
  "OUI_MODERN_GEN =
    [(0x3C,0x5C,0x48), (0x8C,0xF5,0xA3), (0x74,0xC6,0x3B), (0xFC,0xA6,0x67),
     (0xE8,0x6A,0x64), (0x60,0x55,0xF9), (0xDC,0x8C,0x90), (0x40,0x9F,0x38)]"
definition NUM_OUI_GENERIC :: nat where "NUM_OUI_GENERIC = 8"

subsection \<open>Canonical IE payloads and rate tables\<close>

definition HT_CAPS_PAYLOAD :: "byte list" where
  "HT_CAPS_PAYLOAD =
    [0xEF, 0x01, 0x1B, 0xFF, 0xFF, 0x00, 0x00, 0x00, 0x00, 0x00, 0x00, 0x00, 0x00,
     0x00, 0x00, 0x01, 0x00, 0x00, 0x00, 0x00, 0x00, 0x00, 0x00, 0x00, 0x00]"
definition VHT_CAPS_PAYLOAD :: "byte list" where
  "VHT_CAPS_PAYLOAD =
    [0x91, 0x59, 0x82, 0x0F, 0xEA, 0xFF, 0x00, 0x00, 0xEA, 0xFF, 0x00, 0x00]"
definition HE_CAPS_PAYLOAD :: "byte list" where
  "HE_CAPS_PAYLOAD =
    [0x23, 0x09, 0x01, 0x00, 0x02, 0x40, 0x00, 0x04, 0x70, 0x0C, 0x89, 0x7F, 0x03,
     0x80, 0x04, 0x00, 0x00, 0x00, 0xAA, 0xAA, 0xAA, 0xAA]"
definition APPLE_VEND_PAYLOAD :: "byte list" where
  "APPLE_VEND_PAYLOAD = [0x00, 0x17, 0xF2, 0x0A, 0x00, 0x01, 0x04]"
definition WFA_VEND_PAYLOAD :: "byte list" where
  "WFA_VEND_PAYLOAD = [0x00, 10, 0x18, 0x02, 0x00, 0x00, 0x1C, 0x00, 0x00]"
definition RSN_PAYLOAD :: "byte list" where
  "RSN_PAYLOAD =
    [0x01, 0x00, 0x00, 0x0F, 0xAC, 0x04, 0x01, 0x00, 0x00, 0x0F, 0xAC, 0x04, 0x01,
     0x00, 0x00, 0x0F, 0xAC, 0x02, 0x00, 0x00]"

definition RATES_LEGACY :: "byte list" where
  "RATES_LEGACY = [0x82, 0x84, 0x8b, 0x96]"
definition RATES_MODERN_2G :: "byte list" where
  "RATES_MODERN_2G = [0x02, 0x04, 0x0b, 0x16, 0x0c, 0x12, 0x18, 0x24]"
definition RATES_5G :: "byte list" where
  "RATES_5G = [0x0c, 0x12, 0x18, 0x24, 0x30, 0x48, 0x60, 0x6c]"

definition extCap :: "byte list" where
  "extCap = [0x00, 0x00, 0x08, 0x00, 0x00, 0x00, 0x00, 0x40]"
definition extCapAnd :: "byte list" where
  "extCapAnd = [0x04, 0x00, 0x08, 0x00, 0x00, 0x00, 0x00, 0x40]"

section \<open>The pseudo-random generator\<close>

text \<open>
  Modelled from the spec: the pseudo-random generator is an external service whose
  implementation is not part of the sources; the spec requires \<open>random(n)\<close> to return a
  value in \<open>[0, n)\<close> and \<open>random(a, b)\<close> a value in \<open>[a, b)\<close>. The generator is the
  stream of its future raw outputs; a call takes the head and leaves the tail. Every
  value of the required range is reached by some raw output, so a statement for all
  generators covers every behaviour of the service. As in the Arduino core,
  \<open>random(0)\<close> is 0 and \<open>random(a, b)\<close> with \<open>a \<ge> b\<close> is \<open>a\<close>.
\<close>

type_synonym rng = "nat \<Rightarrow> nat"

definition random :: "nat \<Rightarrow> rng \<Rightarrow> nat \<times> rng" where
  "random howbig g = ((if howbig = 0 then 0 else g 0 mod howbig), (\<lambda>i. g (Suc i)))"

definition random2 :: "nat \<Rightarrow> nat \<Rightarrow> rng \<Rightarrow> nat \<times> rng" where
  "random2 howsmall howbig g =
     (if howsmall \<ge> howbig then (howsmall, g)
      else (let (r, g') = random (howbig - howsmall) g in (r + howsmall, g')))"

text \<open>\<open>for (i = 0; i < n; i++) buf[ptr++] = random(lo, hi)\<close>: \<open>n\<close> successive draws.\<close>

fun random_fill :: "nat \<Rightarrow> nat \<Rightarrow> nat \<Rightarrow> rng \<Rightarrow> byte list \<times> rng" where
  "random_fill 0 lo hi g = ([], g)"
| "random_fill (Suc n) lo hi g =
     (let (r, g1) = random2 lo hi g;
          (rest, g2) = random_fill n lo hi g1
      in (of_nat r # rest, g2))"

section \<open>Frame synthesis\<close>

text \<open>
  The builders write into \<open>packetBuffer\<close> from index 0 upwards, every write at
  \<open>buf[ptr++]\<close> or a \<open>memcpy\<close> to \<open>&buf[ptr]\<close> followed by \<open>ptr += len\<close>, and return
  \<open>ptr\<close>; the radio is then handed \<open>buf\<close> and that length. The model carries the prefix
  \<open>buf[0..ptr)\<close> as a list: a write at \<open>ptr\<close> is an append, the returned length is
  the length of the list.
\<close>

definition addTag :: "byte list \<Rightarrow> byte \<Rightarrow> byte list \<Rightarrow> nat \<Rightarrow> byte list" where
  "addTag buf tid dat len = buf @ [tid, of_nat len] @ take len dat"

text \<open>Sequence Control: \<open>buf[22] = seq & 0xFF; buf[23] = (seq >> 8) & 0xF0\<close>.\<close>

definition seq_ctl :: "16 word \<Rightarrow> byte list" where
  "seq_ctl seq = [ucast (seq AND 0xFF), ucast (drop_bit 8 seq AND 0xF0)]"

definition bcast :: "byte list" where
  "bcast = replicate 6 0xFF"

definition buildAuthPacket :: "VirtualDevice \<Rightarrow> byte list" where
  "buildAuthPacket vd =
     [0xB0, 0x00, 0x00, 0x01]
     @ mac_bytes (bssid_target vd) @ mac_bytes (mac vd) @ mac_bytes (bssid_target vd)
     @ seq_ctl (sequenceNumber vd)
     @ [0x00, 0x00] @ [0x01, 0x00] @ [0x00, 0x00]"

text \<open>The rates element shared by the probe and association builders.\<close>

definition add_rates :: "bool \<Rightarrow> DeviceGen \<Rightarrow> byte list \<Rightarrow> byte list" where
  "add_rates is5 gen buf =
     (if is5 then addTag buf 0x01 RATES_5G (length RATES_5G)
      else if gen = GEN_LEGACY then addTag buf 0x01 RATES_LEGACY (length RATES_LEGACY)
      else addTag buf 0x01 RATES_MODERN_2G (length RATES_MODERN_2G))"

text \<open>The hand-written HE Capabilities extension element.\<close>

definition add_he :: "DeviceGen \<Rightarrow> byte list \<Rightarrow> byte list" where
  "add_he gen buf =
     (if gen = GEN_MODERN
      then buf @ [255, of_nat (length HE_CAPS_PAYLOAD + 1), 35] @ HE_CAPS_PAYLOAD
      else buf)"

definition buildAssocRequestPacket :: "bool \<Rightarrow> VirtualDevice \<Rightarrow> byte list \<Rightarrow> byte list" where
  "buildAssocRequestPacket is5 vd ssid =
     (let b0 = [0x00, 0x00, 0x00, 0x00]
               @ mac_bytes (bssid_target vd) @ mac_bytes (mac vd) @ mac_bytes (bssid_target vd)
               @ seq_ctl (sequenceNumber vd)
               @ [0x31, 0x04] @ [0x0A, 0x00]
               @ [0x00, of_nat (length ssid)] @ ssid;
          b1 = add_rates is5 (generation vd) b0;
          b2 = addTag b1 48 RSN_PAYLOAD (length RSN_PAYLOAD);
          b3 = addTag b2 45 HT_CAPS_PAYLOAD (length HT_CAPS_PAYLOAD);
          b4 = (if generation vd \<noteq> GEN_LEGACY
                then addTag b3 191 VHT_CAPS_PAYLOAD (length VHT_CAPS_PAYLOAD) else b3)
      in add_he (generation vd) b4)"

definition buildEncryptedDataPacket :: "VirtualDevice \<Rightarrow> rng \<Rightarrow> byte list \<times> rng" where
  "buildEncryptedDataPacket vd g0 =
     (let b0 = [0x88, 0x41, 0x00, 0x00]
               @ mac_bytes (bssid_target vd) @ mac_bytes (mac vd) @ mac_bytes (bssid_target vd)
               @ seq_ctl (sequenceNumber vd);
          (iv, g1) = random2 0 8 g0;
          b1 = b0 @ [of_nat iv, 0x00];
          (payloadLen, g2) = random2 64 512 g1;
          (payload, g3) = random_fill payloadLen 0 256 g2
      in (b1 @ payload, g3))"

text \<open>
  \<open>vd.preferredSSIDIndex < activeSSIDs.size()\<close> compares an \<open>int\<close> with a \<open>size_t\<close>:
  the index is converted to the 32-bit unsigned type first.
\<close>

definition index_below_size :: "int \<Rightarrow> nat \<Rightarrow> bool" where
  "index_below_size i n \<longleftrightarrow> i mod 2 ^ 32 < int n"

definition probe_ssid :: "byte list list \<Rightarrow> VirtualDevice \<Rightarrow> rng \<Rightarrow> byte list \<times> rng" where
  "probe_ssid activeSSIDs vd g =
     (if preferredSSIDIndex vd \<noteq> -1
         \<and> index_below_size (preferredSSIDIndex vd) (length activeSSIDs)
         \<and> activeSSIDs \<noteq> []
      then (activeSSIDs ! nat (preferredSSIDIndex vd mod 2 ^ 32), g)
      else if activeSSIDs \<noteq> []
      then (let (r, g1) = random (length activeSSIDs) g in (activeSSIDs ! r, g1))
      else random_fill 7 97 122 g)"

definition buildProbePacket ::
  "bool \<Rightarrow> byte list list \<Rightarrow> VirtualDevice \<Rightarrow> int \<Rightarrow> rng \<Rightarrow> byte list \<times> rng" where
  "buildProbePacket is5 activeSSIDs vd channel g0 =
     (let b0 = [0x40, 0x00, 0x00, 0x00] @ bcast @ mac_bytes (mac vd) @ bcast
               @ seq_ctl (sequenceNumber vd);
          (useWildcard, g1) =
            (if generation vd = GEN_LEGACY \<or> platform vd = PLATFORM_OTHER
             then (let (r, g) = random 100 g0 in (r < 40, g))
             else (False, g0));
          (b1, g2) =
            (if useWildcard then (b0 @ [0x00, 0x00], g1)
             else (let (ssid, g) = probe_ssid activeSSIDs vd g1
                   in (b0 @ [0x00, of_nat (length ssid)] @ ssid, g)));
          b2 = add_rates is5 (generation vd) b1;
          b3 = b2 @ [0x03, 0x01, of_int channel];
          isApple = (platform vd = PLATFORM_IOS);
          b4 = (if isApple then addTag b3 127 extCap 8 else b3);
          b5 = addTag b4 45 HT_CAPS_PAYLOAD (length HT_CAPS_PAYLOAD);
          b6 = (if generation vd \<noteq> GEN_LEGACY
                then addTag b5 191 VHT_CAPS_PAYLOAD (length VHT_CAPS_PAYLOAD) else b5);
          b7 = (if \<not> isApple \<and> generation vd \<noteq> GEN_LEGACY
                then addTag b6 127 extCapAnd 8 else b6);
          b8 = add_he (generation vd) b7;
          b9 = addTag b8 221 WFA_VEND_PAYLOAD (length WFA_VEND_PAYLOAD);
          b10 = (if isApple then addTag b9 221 APPLE_VEND_PAYLOAD (length APPLE_VEND_PAYLOAD)
                 else b9)
      in (b10, g2))"

definition buildBeaconPacket ::
  "bool \<Rightarrow> mac_addr \<Rightarrow> byte list \<Rightarrow> int \<Rightarrow> 16 word \<Rightarrow> byte list" where
  "buildBeaconPacket is5 m ssid channel seqNum =
     (let b0 = [0x80, 0x00, 0x00, 0x00] @ bcast @ mac_bytes m @ mac_bytes m
               @ seq_ctl seqNum
               @ replicate 8 0x00
               @ [0x64, 0x00] @ [0x31, 0x04]
               @ [0x00, of_nat (length ssid)] @ ssid;
          b1 = (if is5 then addTag b0 0x01 RATES_5G (length RATES_5G)
                else addTag b0 0x01 RATES_LEGACY (length RATES_LEGACY));
          b2 = b1 @ [0x03, 0x01, of_int channel];
          htOp = of_int channel # replicate 21 0x00;
          b3 = addTag b2 61 htOp 22;
          b4 = (if is5 then addTag b3 192 (replicate 5 0x00) 5 else b3)
      in b4)"


section \<open>Identity generator\<close>

text \<open>
  The weighted draw of \<open>generateWeightedIdentity\<close> (firmware 9.4.2): the if-chain on
  \<open>roll\<close> picks the OUI, the generation and the platform.
\<close>

definition select_identity :: "nat \<Rightarrow> rng \<Rightarrow> (oui \<times> DeviceGen \<times> OSPlatform) \<times> rng" where
  "select_identity roll g =
     (if roll < 40 then
        (let (i, g1) = random NUM_OUI_APPLE g;
             (r, g2) = random 100 g1
         in ((OUI_APPLE ! i, (if r < 80 then GEN_COMMON else GEN_MODERN), PLATFORM_IOS), g2))
      else if roll < 75 then
        (let (i, g1) = random NUM_OUI_SAMSUNG g;
             (r, g2) = random 100 g1
         in ((OUI_SAMSUNG ! i, (if r < 70 then GEN_COMMON else GEN_MODERN), PLATFORM_ANDROID), g2))
      else if roll < 82 then
        (let (i, g1) = random NUM_OUI_IOT g
         in ((OUI_LEGACY_IOT ! i, GEN_LEGACY, PLATFORM_OTHER), g1))
      else
        (let (i, g1) = random NUM_OUI_GENERIC g
         in ((OUI_MODERN_GEN ! i, GEN_MODERN, PLATFORM_ANDROID), g1)))"

text \<open>
  \<open>usePrivate = (gen == GEN_MODERN && random(100) < 85) || (gen == GEN_COMMON &&
  random(100) < 50)\<close>: the operators short-circuit, so a Modern or Common device draws
  once and a Legacy device not at all.
\<close>

definition use_private :: "DeviceGen \<Rightarrow> rng \<Rightarrow> bool \<times> rng" where
  "use_private gen g =
     (if gen = GEN_MODERN then (let (r, g1) = random 100 g in (r < 85, g1))
      else if gen = GEN_COMMON then (let (r, g1) = random 100 g in (r < 50, g1))
      else (False, g))"

definition generateWeightedIdentity :: "byte list list \<Rightarrow> rng \<Rightarrow> VirtualDevice \<times> rng" where
  "generateWeightedIdentity ssids g0 =
     (let (roll, g1) = random 100 g0;
          ((selectedOUI, gen, plat), g2) = select_identity roll g1;
          (pIdx, g3) = random (length POWER_LEVELS) g2;
          (usePrivate, g4) = use_private gen g3;
          ((m0, m1, m2), g5) =
            (if usePrivate
             then (let (a, ga) = random 256 g4;
                       (b, gb) = random 256 ga;
                       (c, gc) = random 256 gb
                   in (((of_nat a AND 0xFE) OR 0x02, of_nat b, of_nat c), gc))
             else (selectedOUI, g4));
          (m3, g6) = random 256 g5;
          (m4, g7) = random 256 g6;
          (m5, g8) = random 256 g7;
          (t3, g9) = random 256 g8;
          (t4, g10) = random 256 g9;
          (t5, g11) = random 256 g10;
          (sq, g12) = random 4096 g11;
          probeChance = (if gen = GEN_LEGACY then 90 else 60);
          (pr, g13) = random 100 g12;
          (pref, g14) = (if pr < probeChance \<and> ssids \<noteq> []
                         then (let (i, g) = random (length ssids) g13 in (int i, g))
                         else (-1, g13))
      in (\<lparr>mac = (m0, m1, m2, of_nat m3, of_nat m4, of_nat m5),
           bssid_target = (0x00, 0x11, 0x32, of_nat t3, of_nat t4, of_nat t5),
           sequenceNumber = of_nat sq,
           preferredSSIDIndex = pref,
           generation = gen,
           platform = plat,
           hasConnected = False,
           txPower = POWER_LEVELS ! pIdx\<rparr>, g14))"


section \<open>System state\<close>

text \<open>
  The globals of the sketch, the two FreeRTOS queues, and the external services the
  main task talks to: the random generator, the millisecond clock (the list of the
  readings its future calls return; a call on an exhausted list is a run that was not
  observed to its end and yields \<open>None\<close>) and the radio (the log of the driver calls
  made so far). A transmitted frame is logged with the code path that sent it and,
  for a device frame, the device it was built for.
\<close>

record CachedMessage =
  payload :: "byte list"
  lastSeen :: millis_t

type_synonym MeshSender = "mac_addr \<times> millis_t"

datatype rx_callback = CB_snifferCallback | CB_meshSnifferCallback

datatype origin = FromDevice VirtualDevice | FromNoise | FromBeacon | FromMeshRelay

datatype radio_event =
    SetChannel int
  | SetMaxTxPower int
  | SetPromiscuousRxCb rx_callback
  | Tx origin "byte list"

record sys =
  activeSSIDs :: "byte list list"
  activeSwarm :: "VirtualDevice list"
  dormantSwarm :: "VirtualDevice list"
  lowMemoryMode :: bool
  ssidQueue :: "byte list list"
  meshQueue :: "byte list list"
  local_mac_addr :: mac_addr
  currentChannel :: int
  is5GHzBand :: bool
  idx2G :: nat
  idx5G :: nat
  nextHopIs5G :: bool
  lastChannelHop :: millis_t
  lastLifecycleRun :: millis_t
  lastSsidLearnTime :: millis_t
  lastMeshCheckTime :: millis_t
  lastMeshPacketTime :: millis_t
  nextChannelHopInterval :: int
  nextLifecycleInterval :: int
  isMeshDetected :: bool
  meshCache :: "CachedMessage list"
  recentSenders :: "MeshSender list"
  lastLearnedSSID :: "byte list"
  totalPacketCount :: "32 word"
  learnedDataCount :: "32 word"
  interactionCount :: "32 word"
  junkPacketCount :: "32 word"
  sniffedPacketCount :: "32 word"
  meshRelayCount :: "32 word"
  packets2G :: "32 word"
  packets5G :: "32 word"
  activeTimeTotal :: "32 word"
  meshRadioTime :: "32 word"
  ghostRadioTime :: "32 word"
  rnd :: rng
  clock :: "millis_t list"
  radio :: "radio_event list"

definition millis :: "sys \<Rightarrow> (millis_t \<times> sys) option" where
  "millis s = (case clock s of [] \<Rightarrow> None | t # ts \<Rightarrow> Some (t, s\<lparr>clock := ts\<rparr>))"


section \<open>Resource governor and SSID learning\<close>

text \<open>
  \<open>int dropCount = dormantSwarm.size() * 0.30\<close> multiplies in \<open>double\<close> and
  truncates. For every pool size the firmware can hold (checked for all sizes up
  to two million) the truncated product is \<open>3 * size div 10\<close>, and \<open>3 * size div 20\<close>
  for the factor 0.15: the rounding error of the constants is far below the distance of
  the exact product to the next integer. The free heap is read from the platform and
  is an argument here.
\<close>

definition manageResources :: "nat \<Rightarrow> sys \<Rightarrow> sys" where
  "manageResources freeHeap s =
     (if freeHeap < 25000 then
        (let s1 = s\<lparr>lowMemoryMode := True\<rparr>;
             s2 = (if dormantSwarm s1 \<noteq> [] then
                     (let dropCount = length (dormantSwarm s1) * 3 div 10
                      in if dropCount > 0
                         then s1\<lparr>dormantSwarm := drop dropCount (dormantSwarm s1)\<rparr>
                         else s1)
                   else s1)
         in if freeHeap < 15000 \<and> activeSwarm s2 \<noteq> [] then
              (let dropCount = length (activeSwarm s2) * 3 div 20
               in if dropCount > 0
                  then s2\<lparr>activeSwarm := drop dropCount (activeSwarm s2)\<rparr>
                  else s2)
            else s2)
      else s\<lparr>lowMemoryMode := False\<rparr>)"

text \<open>
  The body of the queue-draining loop at the head of \<open>loop()\<close>, for one dequeued
  slot. \<open>String(s.ssid)\<close> reads the slot up to its first NUL byte.
\<close>

definition learn_ssid :: "millis_t \<Rightarrow> byte list \<Rightarrow> sys \<Rightarrow> sys" where
  "learn_ssid currentMillis slot s =
     (let newSSID = takeWhile (\<lambda>b. b \<noteq> 0) slot in
      if \<not> lowMemoryMode s then
        (if List.member (activeSSIDs s) newSSID then s
         else
           (let requiredInterval =
                  (if length (activeSSIDs s) \<ge> MAX_SSIDS_TO_LEARN
                   then CYCLE_INTERVAL_MS else LEARN_INTERVAL_MS)
            in if length (activeSSIDs s) < MAX_SSIDS_TO_LEARN + CYCLE_CAP_BUFFER then
                 s\<lparr>activeSSIDs := activeSSIDs s @ [newSSID],
                   learnedDataCount := learnedDataCount s + 1,
                   lastLearnedSSID := newSSID,
                   lastSsidLearnTime := currentMillis\<rparr>
               else if currentMillis - lastSsidLearnTime s \<ge> requiredInterval then
                 (if length (activeSSIDs s) > NUM_SEED_SSIDS then
                    (let (cycleIdx, g) = random2 NUM_SEED_SSIDS (length (activeSSIDs s)) (rnd s)
                     in s\<lparr>activeSSIDs := (activeSSIDs s)[cycleIdx := newSSID],
                          lastLearnedSSID := newSSID,
                          lastSsidLearnTime := currentMillis,
                          rnd := g\<rparr>)
                  else s)
               else s))
      else s)"

definition drain_ssid_queue :: "millis_t \<Rightarrow> sys \<Rightarrow> sys" where
  "drain_ssid_queue currentMillis s =
     foldl (\<lambda>st slot. learn_ssid currentMillis slot st) (s\<lparr>ssidQueue := []\<rparr>) (ssidQueue s)"

section \<open>Receive callbacks\<close>

text \<open>
  The driver hands the callback a packet type and a pointer to the received frame;
  the callbacks index that memory without a bound of their own, so the payload is the
  memory from the pointer on. Each queue drops a record that arrives while it is full
  (20 SSID slots, 5 mesh packets, as created in \<open>setup()\<close>).
\<close>

datatype wifi_promiscuous_pkt_type = WIFI_PKT_MGMT | WIFI_PKT_CTRL | WIFI_PKT_DATA | WIFI_PKT_MISC

record wifi_promiscuous_pkt =
  sig_len :: nat
  rx_payload :: "nat \<Rightarrow> byte"

definition SSID_QUEUE_LENGTH :: nat where "SSID_QUEUE_LENGTH = 20"
definition MESH_QUEUE_LENGTH :: nat where "MESH_QUEUE_LENGTH = 5"

definition xQueueSend :: "nat \<Rightarrow> 'a \<Rightarrow> 'a list \<Rightarrow> 'a list" where
  "xQueueSend capacity item q = (if length q < capacity then q @ [item] else q)"

definition snifferCallback :: "wifi_promiscuous_pkt_type \<Rightarrow> wifi_promiscuous_pkt \<Rightarrow> sys \<Rightarrow> sys" where
  "snifferCallback type pkt s =
     (if type \<noteq> WIFI_PKT_MGMT then s
      else
        (let frame = rx_payload pkt;
             s1 = s\<lparr>sniffedPacketCount := sniffedPacketCount s + 1\<rparr>
         in if frame 0 \<noteq> 0x40 then s1
            else if frame 24 = 0x00 then
              (let len = unat (frame 25)
               in if len > 1 \<and> len < 32
                  then s1\<lparr>ssidQueue :=
                          xQueueSend SSID_QUEUE_LENGTH (map frame [26 ..< 26 + len]) (ssidQueue s1)\<rparr>
                  else s1)
            else s1))"

definition meshSnifferCallback ::
  "wifi_promiscuous_pkt_type \<Rightarrow> wifi_promiscuous_pkt \<Rightarrow> sys \<Rightarrow> sys" where
  "meshSnifferCallback type pkt s =
     (if type \<noteq> WIFI_PKT_MGMT then s
      else
        (let frame = rx_payload pkt;
             len = sig_len pkt
         in if frame 0 \<noteq> 0xD0 then s
            else if len < 40 \<or> len > 1024 then s
            else if frame 24 \<noteq> 127 then s
            else if frame 25 \<noteq> 0x18 \<or> frame 26 \<noteq> 0xFE \<or> frame 27 \<noteq> 0x34 then s
            else if len \<le> 1024
              then s\<lparr>meshQueue := xQueueSend MESH_QUEUE_LENGTH (map frame [0 ..< len]) (meshQueue s)\<rparr>
              else s))"

section \<open>Swarm lifecycle\<close>

definition erase_at :: "nat \<Rightarrow> 'a list \<Rightarrow> 'a list" where
  "erase_at i xs = take i xs @ drop (Suc i) xs"

definition processLifecycle :: "sys \<Rightarrow> sys" where
  "processLifecycle s =
     (let s1 = (if activeSwarm s \<noteq> [] then
                  (let (idx, g) = random (length (activeSwarm s)) (rnd s);
                       leaving = activeSwarm s ! idx;
                       sa = s\<lparr>rnd := g\<rparr>;
                       sb = (if length (dormantSwarm sa) < TARGET_DORMANT_POOL \<and> \<not> lowMemoryMode sa
                             then sa\<lparr>dormantSwarm := dormantSwarm sa @ [leaving]\<rparr> else sa)
                   in sb\<lparr>activeSwarm := erase_at idx (activeSwarm sb)\<rparr>)
                else s)
      in if lowMemoryMode s1 \<and> length (activeSwarm s1) > 800 then s1
         else
           (let (arriving, s2) =
                  (if dormantSwarm s1 \<noteq> [] \<and> fst (random 100 (rnd s1)) < 50 then
                     (let g1 = snd (random 100 (rnd s1));
                          (dIdx, g2) = random (length (dormantSwarm s1)) g1;
                          a0 = dormantSwarm s1 ! dIdx;
                          (k, g3) = random2 50 500 g2;
                          a1 = a0\<lparr>sequenceNumber := of_nat ((unat (sequenceNumber a0) + k) mod 4096)\<rparr>;
                          (r, g4) = random 100 g3;
                          (a2, g5) = (if r < 30
                                      then (let (d, g) = random 3 g4
                                            in (a1\<lparr>txPower := txPower a1 + (int d - 1) * 2\<rparr>, g))
                                      else (a1, g4))
                      in (a2\<lparr>hasConnected := False\<rparr>,
                          s1\<lparr>dormantSwarm := erase_at dIdx (dormantSwarm s1), rnd := g5\<rparr>))
                   else
                     (let g1 = (if dormantSwarm s1 \<noteq> [] then snd (random 100 (rnd s1)) else rnd s1);
                          (vd, g2) = generateWeightedIdentity (activeSSIDs s1) g1
                      in (vd, s1\<lparr>rnd := g2\<rparr>)));
                a3 = (if txPower arriving < MIN_TX_POWER
                      then arriving\<lparr>txPower := MIN_TX_POWER\<rparr> else arriving);
                a4 = (if txPower a3 > MAX_TX_POWER then a3\<lparr>txPower := MAX_TX_POWER\<rparr> else a3)
            in s2\<lparr>activeSwarm := activeSwarm s2 @ [a4]\<rparr>))"

section \<open>Noise filler\<close>

definition noise_packet :: "bool \<Rightarrow> rng \<Rightarrow> byte list \<times> rng" where
  "noise_packet is5 g0 =
     (let (m0, g1) = random 256 g0;
          (m1, g2) = random 256 g1;
          (m2, g3) = random 256 g2;
          (m3, g4) = random 256 g3;
          (m4, g5) = random 256 g4;
          (m5, g6) = random 256 g5;
          noiseMac = ((of_nat m0 AND 0xFE) OR 0x02, of_nat m1, of_nat m2,
                      of_nat m3, of_nat m4, of_nat m5);
          (sq, g7) = random 4096 g6;
          b0 = [0x40, 0x00, 0x00, 0x00] @ bcast @ mac_bytes noiseMac @ bcast
               @ seq_ctl (of_nat sq);
          (r, g8) = random 100 g7;
          (b1, g9) = (if r < 40
                      then (let (noiseLen, ga) = random2 5 12 g8;
                                (chars, gb) = random_fill noiseLen 97 122 ga
                            in (b0 @ [0x00, of_nat noiseLen] @ chars, gb))
                      else (b0 @ [0x00, 0x00], g8));
          b2 = (if is5 then addTag b1 0x01 RATES_5G (length RATES_5G)
                else addTag b1 0x01 [0x82, 0x84, 0x8b, 0x96] 4)
      in (b2, g9))"

definition noise_iter :: "sys \<Rightarrow> sys" where
  "noise_iter s =
     (let (frame, g) = noise_packet (is5GHzBand s) (rnd s)
      in s\<lparr>rnd := g,
           radio := radio s @ [Tx FromNoise frame],
           totalPacketCount := totalPacketCount s + 1,
           junkPacketCount := junkPacketCount s + 1\<rparr>)"

text \<open>
  \<open>while (millis() - start < durationMs) { ... }\<close>: every test of the condition takes
  one reading off the clock; the loop ends at the first reading that has reached the
  deadline.
\<close>

fun noise_loop :: "millis_t \<Rightarrow> millis_t \<Rightarrow> millis_t list \<Rightarrow> sys \<Rightarrow> sys option" where
  "noise_loop start durationMs [] s = None"
| "noise_loop start durationMs (t # ts) s =
     (if t - start < durationMs then noise_loop start durationMs ts (noise_iter s)
      else Some (s\<lparr>clock := ts\<rparr>))"

definition fillSilenceWithNoise :: "millis_t \<Rightarrow> sys \<Rightarrow> sys option" where
  "fillSilenceWithNoise durationMs s =
     (case clock s of
        [] \<Rightarrow> None
      | start # ts \<Rightarrow>
          (let (r, g) = random2 0 6 (rnd s);
               noisePower = 68 + int r
           in noise_loop start durationMs ts
                (s\<lparr>rnd := g, radio := radio s @ [SetMaxTxPower noisePower]\<rparr>)))"


section \<open>Packet slots of a channel hop\<close>

text \<open>
  \<open>vd\<close> is a reference to \<open>activeSwarm[swarmIdx]\<close>: every write to it is a write to
  the pool, and every builder call reads the element as it is at that moment.
\<close>

definition bump_seq :: "nat \<Rightarrow> VirtualDevice \<Rightarrow> VirtualDevice" where
  "bump_seq step vd = vd\<lparr>sequenceNumber := of_nat ((unat (sequenceNumber vd) + step) mod 4096)\<rparr>"

definition count_band :: "sys \<Rightarrow> sys" where
  "count_band s = (if is5GHzBand s then s\<lparr>packets5G := packets5G s + 1\<rparr>
                   else s\<lparr>packets2G := packets2G s + 1\<rparr>)"

definition tx_auth :: "nat \<Rightarrow> sys \<Rightarrow> sys" where
  "tx_auth swarmIdx s =
     (let vd = activeSwarm s ! swarmIdx;
          pkt = buildAuthPacket vd
      in s\<lparr>radio := radio s @ [Tx (FromDevice vd) pkt],
           activeSwarm := (activeSwarm s)[swarmIdx := bump_seq 1 vd]\<rparr>)"

definition tx_assoc :: "nat \<Rightarrow> byte list \<Rightarrow> sys \<Rightarrow> sys" where
  "tx_assoc swarmIdx targetSSID s =
     (let vd = activeSwarm s ! swarmIdx;
          pkt = buildAssocRequestPacket (is5GHzBand s) vd targetSSID
      in s\<lparr>radio := radio s @ [Tx (FromDevice vd) pkt],
           activeSwarm := (activeSwarm s)[swarmIdx := bump_seq 1 vd]\<rparr>)"

definition tx_data :: "nat \<Rightarrow> sys \<Rightarrow> sys" where
  "tx_data swarmIdx s =
     (let vd = activeSwarm s ! swarmIdx;
          (pkt, g) = buildEncryptedDataPacket vd (rnd s)
      in count_band
           (s\<lparr>rnd := g,
              radio := radio s @ [Tx (FromDevice vd) pkt],
              activeSwarm := (activeSwarm s)[swarmIdx := bump_seq 1 vd],
              totalPacketCount := totalPacketCount s + 1\<rparr>))"

text \<open>\<open>fillSilenceWithNoise(random(a, b))\<close>.\<close>

definition noise_gap :: "nat \<Rightarrow> nat \<Rightarrow> sys \<Rightarrow> sys option" where
  "noise_gap a b s =
     (let (d, g) = random2 a b (rnd s) in fillSilenceWithNoise (of_nat d) (s\<lparr>rnd := g\<rparr>))"

fun data_burst :: "nat \<Rightarrow> nat \<Rightarrow> sys \<Rightarrow> sys option" where
  "data_burst 0 swarmIdx s = Some s"
| "data_burst (Suc b) swarmIdx s =
     Option.bind (noise_gap 3 10 (tx_data swarmIdx s)) (data_burst b swarmIdx)"

definition interaction_sim :: "nat \<Rightarrow> sys \<Rightarrow> sys option" where
  "interaction_sim swarmIdx s =
     (let vd = activeSwarm s ! swarmIdx;
          targetSSID = activeSSIDs s ! nat (preferredSSIDIndex vd mod 2 ^ 32);
          s1 = s\<lparr>activeSwarm := (activeSwarm s)[swarmIdx := vd\<lparr>hasConnected := True\<rparr>]\<rparr>
      in Option.bind (noise_gap 7 20 (tx_auth swarmIdx s1)) (\<lambda>s2.
         Option.bind (noise_gap 22 50 (tx_assoc swarmIdx targetSSID s2)) (\<lambda>s3.
           (let (burstCount, g) = random2 3 12 (rnd s3)
            in Option.bind (data_burst burstCount swarmIdx (s3\<lparr>rnd := g\<rparr>)) (\<lambda>s4.
                 Some (s4\<lparr>interactionCount := interactionCount s4 + 1\<rparr>))))))"

definition probe_tx :: "nat \<Rightarrow> sys \<Rightarrow> sys" where
  "probe_tx swarmIdx s =
     (let vd = activeSwarm s ! swarmIdx;
          (pkt, g) = buildProbePacket (is5GHzBand s) (activeSSIDs s) vd (currentChannel s) (rnd s);
          s1 = s\<lparr>rnd := g, radio := radio s @ [Tx (FromDevice vd) pkt]\<rparr>
      in if length pkt > 0 then
           (let s2 = count_band (s1\<lparr>totalPacketCount := totalPacketCount s1 + 1\<rparr>);
                (r, g1) = random 100 (rnd s2);
                (step, g2) = (if r < 20 then random2 2 8 g1 else (1, g1))
            in s2\<lparr>rnd := g2, activeSwarm := (activeSwarm s2)[swarmIdx := bump_seq step vd]\<rparr>)
         else s1)"

definition mesh_relay_slot :: "sys \<Rightarrow> sys" where
  "mesh_relay_slot s =
     (if meshCache s \<noteq> [] \<and> \<not> is5GHzBand s \<and> currentChannel s = MESH_CHANNEL then
        (let (r, g) = random 100 (rnd s)
         in if r < MESH_RELAY_CHANCE then
              (let (msgIdx, g1) = random (length (meshCache s)) g;
                   msg = meshCache s ! msgIdx
               in s\<lparr>rnd := g1,
                    radio := radio s @ [SetMaxTxPower MAX_TX_POWER, Tx FromMeshRelay (payload msg)],
                    meshRelayCount := meshRelayCount s + 1,
                    totalPacketCount := totalPacketCount s + 1\<rparr>)
            else s\<lparr>rnd := g\<rparr>)
      else s)"

definition beacon_slot :: "sys \<Rightarrow> sys" where
  "beacon_slot s =
     (let beaconChance = (if length (activeSSIDs s) \<ge> MAX_SSIDS_TO_LEARN then 5 else 2 :: nat);
          (r, g) = random 100 (rnd s)
      in if r < beaconChance \<and> activeSSIDs s \<noteq> [] then
           (let (ssidIdx, g1) = random (length (activeSSIDs s)) g;
                beaconSSID = activeSSIDs s ! ssidIdx;
                (m3, g2) = random 255 g1;
                (m4, g3) = random 255 g2;
                (m5, g4) = random 255 g3;
                m = (0x02, 0x11, 0x22, of_nat m3, of_nat m4, of_nat m5);
                (sq, g5) = random 4096 g4;
                pkt = buildBeaconPacket (is5GHzBand s) m beaconSSID (currentChannel s) (of_nat sq)
            in count_band
                 (s\<lparr>rnd := g5,
                    radio := radio s @ [SetMaxTxPower MAX_TX_POWER, Tx FromBeacon pkt],
                    totalPacketCount := totalPacketCount s + 1\<rparr>))
         else s\<lparr>rnd := g\<rparr>)"

text \<open>The end of a slot: the beacon roll and the noise between slots.\<close>

definition slot_tail :: "sys \<Rightarrow> sys option" where
  "slot_tail s = noise_gap 1 5 (beacon_slot s)"

text \<open>
  One iteration of \<open>for (int i = 0; i < packetsThisHop; i++)\<close>. The \<open>continue\<close> of
  the band check leaves the iteration at once, past the beacon roll and the noise.
\<close>

definition packet_slot :: "sys \<Rightarrow> sys option" where
  "packet_slot s =
     (let s1 = mesh_relay_slot s
      in if activeSwarm s1 \<noteq> [] then
           (let (swarmIdx, g) = random (length (activeSwarm s1)) (rnd s1);
                vd = activeSwarm s1 ! swarmIdx;
                s2 = s1\<lparr>rnd := g, radio := radio s1 @ [SetMaxTxPower (txPower vd)]\<rparr>
            in if is5GHzBand s2 \<and> generation vd = GEN_LEGACY then Some s2
               else
                 (let (r, g1) = random 100 (rnd s2);
                      s3 = s2\<lparr>rnd := g1\<rparr>
                  in Option.bind
                       (if r < 2 \<and> preferredSSIDIndex vd \<noteq> -1
                           \<and> index_below_size (preferredSSIDIndex vd) (length (activeSSIDs s3))
                        then interaction_sim swarmIdx s3
                        else Some (probe_tx swarmIdx s3))
                       slot_tail))
         else slot_tail s1)"

fun packet_slots :: "nat \<Rightarrow> sys \<Rightarrow> sys option" where
  "packet_slots 0 s = Some s"
| "packet_slots (Suc n) s = Option.bind (packet_slot s) (packet_slots n)"

text \<open>\<open>HARDWARE_IS_C5\<close> is fixed when the sketch is compiled; it is an argument.\<close>

definition select_channel :: "bool \<Rightarrow> sys \<Rightarrow> sys" where
  "select_channel HARDWARE_IS_C5 s =
     (if HARDWARE_IS_C5 then
        (if nextHopIs5G s then
           s\<lparr>is5GHzBand := True,
             currentChannel := CHANNELS_5G ! idx5G s,
             idx5G := (if idx5G s + 1 \<ge> NUM_CHANNELS_5G then 0 else idx5G s + 1),
             nextHopIs5G := False\<rparr>
         else
           s\<lparr>is5GHzBand := False,
             currentChannel := CHANNELS_2G ! idx2G s,
             idx2G := (if idx2G s + 1 \<ge> NUM_CHANNELS_2G then 0 else idx2G s + 1),
             nextHopIs5G := True\<rparr>)
      else
        s\<lparr>is5GHzBand := False,
          currentChannel := CHANNELS_2G ! idx2G s,
          idx2G := (if idx2G s + 1 \<ge> NUM_CHANNELS_2G then 0 else idx2G s + 1)\<rparr>)"

definition channel_hop :: "bool \<Rightarrow> millis_t \<Rightarrow> sys \<Rightarrow> sys option" where
  "channel_hop HARDWARE_IS_C5 currentMillis s =
     Option.bind (millis s) (\<lambda>(hopStart, s0).
       (let (iv, g) = random2 120 300 (rnd s0);
            s1 = select_channel HARDWARE_IS_C5
                   (s0\<lparr>lastChannelHop := currentMillis, nextChannelHopInterval := int iv, rnd := g\<rparr>);
            s2 = s1\<lparr>radio := radio s1 @ [SetChannel (currentChannel s1)]\<rparr>;
            (packetsThisHop, g1) = random2 MIN_PACKETS_PER_HOP MAX_PACKETS_PER_HOP (rnd s2)
        in Option.bind (packet_slots packetsThisHop (s2\<lparr>rnd := g1\<rparr>)) (\<lambda>s3.
           Option.bind (millis s3) (\<lambda>(t, s4).
             (let hopDuration = t - hopStart
              in Some (s4\<lparr>ghostRadioTime := ghostRadioTime s4 + hopDuration,
                         activeTimeTotal := activeTimeTotal s4 + hopDuration\<rparr>))))))"


section \<open>Mesh relay\<close>

definition manageMeshResources :: "millis_t \<Rightarrow> sys \<Rightarrow> sys" where
  "manageMeshResources currentMillis s =
     s\<lparr>recentSenders :=
          filter (\<lambda>sender. \<not> (currentMillis - snd sender > SENDER_TRACK_WINDOW_MS))
            (recentSenders s),
       meshCache :=
          filter (\<lambda>msg. \<not> (currentMillis - lastSeen msg > MESH_DECAY_TIMEOUT_MS)) (meshCache s)\<rparr>"

text \<open>The two \<open>for ... break\<close> searches refresh the first matching entry only.\<close>

fun refresh_sender :: "mac_addr \<Rightarrow> millis_t \<Rightarrow> MeshSender list \<Rightarrow> MeshSender list" where
  "refresh_sender m t [] = []"
| "refresh_sender m t (e # es) =
     (if fst e = m then (fst e, t) # es else e # refresh_sender m t es)"

fun refresh_cached :: "byte list \<Rightarrow> millis_t \<Rightarrow> CachedMessage list \<Rightarrow> CachedMessage list" where
  "refresh_cached p t [] = []"
| "refresh_cached p t (c # cs) =
     (if payload c = p then c\<lparr>lastSeen := t\<rparr> # cs else c # refresh_cached p t cs)"

definition track_sender :: "mac_addr \<Rightarrow> sys \<Rightarrow> sys option" where
  "track_sender senderMac s =
     Option.bind (millis s) (\<lambda>(t, s1).
       Some (if senderMac \<in> fst ` set (recentSenders s1)
             then s1\<lparr>recentSenders := refresh_sender senderMac t (recentSenders s1)\<rparr>
             else s1\<lparr>recentSenders := recentSenders s1 @ [(senderMac, t)]\<rparr>))"

definition cache_message :: "byte list \<Rightarrow> sys \<Rightarrow> sys option" where
  "cache_message mp s =
     Option.bind (millis s) (\<lambda>(t, s1).
       Some (if mp \<in> payload ` set (meshCache s1)
             then s1\<lparr>meshCache := refresh_cached mp t (meshCache s1)\<rparr>
             else
               (let c = (if length (meshCache s1) \<ge> MAX_MESH_QUEUE_SIZE
                         then tl (meshCache s1) else meshCache s1)
                in s1\<lparr>meshCache := c @ [\<lparr>payload = mp, lastSeen = t\<rparr>]\<rparr>)))"

definition sender_of :: "byte list \<Rightarrow> mac_addr" where
  "sender_of mp = (mp ! 10, mp ! 11, mp ! 12, mp ! 13, mp ! 14, mp ! 15)"

text \<open>
  The body of \<open>if (xQueueReceive(meshQueue, &mp, 0) == pdTRUE)\<close> for the dequeued
  packet. A packet whose source address is the local MAC is dropped by \<open>continue\<close>.
\<close>

definition mesh_process :: "byte list \<Rightarrow> sys \<Rightarrow> sys option" where
  "mesh_process mp s =
     (if length mp \<ge> 16 \<and> sender_of mp = local_mac_addr s then Some s
      else
        Option.bind (if length mp \<ge> 16 then track_sender (sender_of mp) s else Some s) (\<lambda>s1.
        Option.bind (cache_message mp s1) (\<lambda>s2.
        Option.bind (millis s2) (\<lambda>(t, s3).
          Some (s3\<lparr>isMeshDetected := True, lastMeshPacketTime := t\<rparr>)))))"

text \<open>
  While the main task polls, the driver may call the installed callback any number of
  times. The frames that arrive before each poll of the listen window are an input:
  one list of received packets per poll, none once the list is used up.
\<close>

type_synonym rx_event = "wifi_promiscuous_pkt_type \<times> wifi_promiscuous_pkt"

definition deliver_mesh :: "rx_event list \<Rightarrow> sys \<Rightarrow> sys" where
  "deliver_mesh evs s = foldl (\<lambda>st ev. meshSnifferCallback (fst ev) (snd ev) st) s evs"

definition listen_poll :: "rx_event list \<Rightarrow> sys \<Rightarrow> sys option" where
  "listen_poll evs s =
     (let s1 = deliver_mesh evs s
      in case meshQueue s1 of
           [] \<Rightarrow> Some s1
         | mp # q \<Rightarrow> mesh_process mp (s1\<lparr>meshQueue := q\<rparr>))"

text \<open>
  \<open>while (millis() - start < MESH_CHECK_DURATION_MS)\<close>. Every pass reads the clock
  at least once, so a bound equal to the number of readings left is never the reason
  the loop stops.
\<close>

fun listen_loop :: "nat \<Rightarrow> millis_t \<Rightarrow> rx_event list list \<Rightarrow> sys \<Rightarrow> sys option" where
  "listen_loop 0 start air s = None"
| "listen_loop (Suc n) start air s =
     Option.bind (millis s) (\<lambda>(t, s1).
       if t - start < MESH_CHECK_DURATION_MS
       then Option.bind (listen_poll (case air of [] \<Rightarrow> [] | evs # _ \<Rightarrow> evs) s1)
              (listen_loop n start (tl air))
       else Some s1)"

definition checkAndListenForMesh :: "rx_event list list \<Rightarrow> sys \<Rightarrow> sys option" where
  "checkAndListenForMesh air s =
     (let s1 = s\<lparr>radio := radio s @ [SetPromiscuousRxCb CB_meshSnifferCallback,
                                      SetChannel MESH_CHANNEL]\<rparr>
      in Option.bind (millis s1) (\<lambda>(start, s2).
         Option.bind (listen_loop (length (clock s2)) start air s2) (\<lambda>s3.
         Option.bind (millis s3) (\<lambda>(t, s4).
           Some (s4\<lparr>meshRadioTime := meshRadioTime s4 + (t - start),
                     radio := radio s4 @ [SetPromiscuousRxCb CB_snifferCallback]\<rparr>)))))"

section \<open>The scheduler loop\<close>

definition MIN_LIFECYCLE_MS :: nat where "MIN_LIFECYCLE_MS = 3000"
definition MAX_LIFECYCLE_MS :: nat where "MAX_LIFECYCLE_MS = 6000"

definition lifecycle_tick :: "millis_t \<Rightarrow> sys \<Rightarrow> sys" where
  "lifecycle_tick currentMillis s =
     (if currentMillis - lastLifecycleRun s > of_int (nextLifecycleInterval s) then
        (let (iv, g) = random2 (MIN_LIFECYCLE_MS * 66 div 100) (MAX_LIFECYCLE_MS * 66 div 100) (rnd s);
             (rotateCount, g1) = random2 3 8 g
         in (processLifecycle ^^ rotateCount)
              (s\<lparr>lastLifecycleRun := currentMillis, nextLifecycleInterval := int iv, rnd := g1\<rparr>))
      else s)"

text \<open>The decay block of \<open>loop()\<close> ("MESH DECAY TIMEOUT LOGIC").\<close>

definition mesh_decay :: "millis_t \<Rightarrow> sys \<Rightarrow> sys" where
  "mesh_decay currentMillis s =
     (if isMeshDetected s \<and> currentMillis - lastMeshPacketTime s > MESH_DECAY_TIMEOUT_MS
      then s\<lparr>isMeshDetected := False, meshCache := []\<rparr>
      else s)"

text \<open>The block that follows it ("MESH CHECK INTERRUPT").\<close>

definition mesh_check :: "millis_t \<Rightarrow> rx_event list list \<Rightarrow> sys \<Rightarrow> sys option" where
  "mesh_check currentMillis air s =
     (let requiredInterval = (if isMeshDetected s then MESH_ACTIVE_INTERVAL_MS
                              else MESH_STANDBY_INTERVAL_MS)
      in if currentMillis - lastMeshCheckTime s > requiredInterval then
           Option.bind (millis s) (\<lambda>(meshCheckStart, s1).
           Option.bind (checkAndListenForMesh air s1) (\<lambda>s2.
           Option.bind (millis (s2\<lparr>lastMeshCheckTime := currentMillis\<rparr>)) (\<lambda>(t, s3).
             Some (s3\<lparr>activeTimeTotal := activeTimeTotal s3 + (t - meshCheckStart)\<rparr>))))
         else Some s)"

definition hop_tick :: "bool \<Rightarrow> millis_t \<Rightarrow> sys \<Rightarrow> sys option" where
  "hop_tick HARDWARE_IS_C5 currentMillis s =
     (if currentMillis - lastChannelHop s > of_int (nextChannelHopInterval s)
      then channel_hop HARDWARE_IS_C5 currentMillis s
      else Some s)"

text \<open>
  One pass of \<open>loop()\<close>, up to the display update, which only draws. The arguments
  are what the pass reads from outside: the build target, the free heap, the frames
  arriving during the listen window.
\<close>

definition loop_head :: "nat \<Rightarrow> millis_t \<Rightarrow> sys \<Rightarrow> sys" where
  "loop_head freeHeap currentMillis s =
     lifecycle_tick currentMillis
       (manageMeshResources currentMillis
         (manageResources freeHeap
           (drain_ssid_queue currentMillis s)))"

definition loop_tail :: "bool \<Rightarrow> millis_t \<Rightarrow> rx_event list list \<Rightarrow> sys \<Rightarrow> sys option" where
  "loop_tail HARDWARE_IS_C5 currentMillis air s =
     Option.bind (mesh_check currentMillis air s) (hop_tick HARDWARE_IS_C5 currentMillis)"

definition loop :: "bool \<Rightarrow> nat \<Rightarrow> rx_event list list \<Rightarrow> sys \<Rightarrow> sys option" where
  "loop HARDWARE_IS_C5 freeHeap air s =
     Option.bind (millis s) (\<lambda>(currentMillis, s0).
       loop_tail HARDWARE_IS_C5 currentMillis air
         (mesh_decay currentMillis (loop_head freeHeap currentMillis s0)))"


section \<open>Reading a frame back\<close>

text \<open>
  What a standard 802.11 decoder sees in the body of a management frame: a sequence
  of elements, each a tag byte, a length byte and that many payload bytes. A body that
  ends inside an element does not parse.
\<close>

type_synonym ie = "byte \<times> byte list"

function parse_ies :: "byte list \<Rightarrow> ie list option" where
  "parse_ies [] = Some []"
| "parse_ies [t] = None"
| "parse_ies (t # l # rest) =
     (if length rest < unat l then None
      else map_option (Cons (t, take (unat l) rest)) (parse_ies (drop (unat l) rest)))"
  by pat_completeness auto
termination
  by (relation "measure length") auto

text \<open>The encoding of a list of elements, the inverse of \<open>parse_ies\<close>.\<close>

definition ies_of :: "ie list \<Rightarrow> byte list" where
  "ies_of xs = concat (map (\<lambda>(t, p). t # of_nat (length p) # p) xs)"

definition is_vht_caps :: "ie \<Rightarrow> bool" where
  "is_vht_caps e \<longleftrightarrow> fst e = 191"

definition is_he_caps :: "ie \<Rightarrow> bool" where
  "is_he_caps e \<longleftrightarrow> fst e = 255 \<and> take 1 (snd e) = [35]"

definition is_apple_vendor :: "ie \<Rightarrow> bool" where
  "is_apple_vendor e \<longleftrightarrow> fst e = 221 \<and> take 3 (snd e) = [0x00, 0x17, 0xF2]"

text \<open>The rates determined by band and generation.\<close>

definition probe_rates :: "bool \<Rightarrow> DeviceGen \<Rightarrow> byte list" where
  "probe_rates is5 gen =
     (if is5 then RATES_5G else if gen = GEN_LEGACY then RATES_LEGACY else RATES_MODERN_2G)"

text \<open>
  The element order the specification prescribes for a probe request, written from its
  ten numbered items, for a given SSID payload and rates payload.
\<close>

definition probe_ies_spec :: "VirtualDevice \<Rightarrow> byte list \<Rightarrow> byte list \<Rightarrow> int \<Rightarrow> ie list" where
  "probe_ies_spec vd ssid rates channel =
     [(0, ssid), (1, rates), (3, [of_int channel])]
     @ (if platform vd = PLATFORM_IOS then [(127, extCap)] else [])
     @ [(45, HT_CAPS_PAYLOAD)]
     @ (if generation vd \<noteq> GEN_LEGACY then [(191, VHT_CAPS_PAYLOAD)] else [])
     @ (if platform vd \<noteq> PLATFORM_IOS \<and> generation vd \<noteq> GEN_LEGACY
        then [(127, extCapAnd)] else [])
     @ (if generation vd = GEN_MODERN then [(255, 35 # HE_CAPS_PAYLOAD)] else [])
     @ [(221, WFA_VEND_PAYLOAD)]
     @ (if platform vd = PLATFORM_IOS then [(221, APPLE_VEND_PAYLOAD)] else [])"

text \<open>The elements of an association request, in the order the builder emits them.\<close>

definition assoc_ies_spec :: "VirtualDevice \<Rightarrow> byte list \<Rightarrow> byte list \<Rightarrow> ie list" where
  "assoc_ies_spec vd ssid rates =
     [(0, ssid), (1, rates), (48, RSN_PAYLOAD), (45, HT_CAPS_PAYLOAD)]
     @ (if generation vd \<noteq> GEN_LEGACY then [(191, VHT_CAPS_PAYLOAD)] else [])
     @ (if generation vd = GEN_MODERN then [(255, 35 # HE_CAPS_PAYLOAD)] else [])"

text \<open>The fixed part of each frame that precedes the elements.\<close>

definition probe_header :: "VirtualDevice \<Rightarrow> byte list" where
  "probe_header vd =
     [0x40, 0x00, 0x00, 0x00] @ bcast @ mac_bytes (mac vd) @ bcast @ seq_ctl (sequenceNumber vd)"

definition assoc_header :: "VirtualDevice \<Rightarrow> byte list" where
  "assoc_header vd =
     [0x00, 0x00, 0x00, 0x00]
     @ mac_bytes (bssid_target vd) @ mac_bytes (mac vd) @ mac_bytes (bssid_target vd)
     @ seq_ctl (sequenceNumber vd)
     @ [0x31, 0x04] @ [0x0A, 0x00]"

section \<open>Sample devices and states\<close>

definition dev_legacy :: VirtualDevice where
  "dev_legacy = \<lparr>mac = (0x00,0x14,0x38,1,2,3), bssid_target = (0x00,0x11,0x32,4,5,6),
     sequenceNumber = 100, preferredSSIDIndex = 0, generation = GEN_LEGACY,
     platform = PLATFORM_OTHER, hasConnected = False, txPower = 72\<rparr>"

definition dev_common :: VirtualDevice where
  "dev_common = \<lparr>mac = (0x24,0xFC,0xEE,1,2,3), bssid_target = (0x00,0x11,0x32,4,5,6),
     sequenceNumber = 4095, preferredSSIDIndex = -1, generation = GEN_COMMON,
     platform = PLATFORM_ANDROID, hasConnected = False, txPower = 76\<rparr>"

definition dev_modern_ios :: VirtualDevice where
  "dev_modern_ios = \<lparr>mac = (0x02,0x14,0x38,1,2,3), bssid_target = (0x00,0x11,0x32,4,5,6),
     sequenceNumber = 7, preferredSSIDIndex = 0, generation = GEN_MODERN,
     platform = PLATFORM_IOS, hasConnected = False, txPower = 80\<rparr>"

definition ssid_Home :: "byte list" where
  "ssid_Home = [0x48, 0x6F, 0x6D, 0x65]"

definition sys0 :: sys where
  "sys0 = \<lparr>activeSSIDs = [ssid_Home], activeSwarm = [dev_modern_ios],
     dormantSwarm = [], lowMemoryMode = False, ssidQueue = [], meshQueue = [],
     local_mac_addr = (0x24,0x0A,0xC4,0x01,0x02,0x03),
     currentChannel = 1, is5GHzBand = False, idx2G = 0, idx5G = 0, nextHopIs5G = True,
     lastChannelHop = 0, lastLifecycleRun = 0, lastSsidLearnTime = 0,
     lastMeshCheckTime = 0, lastMeshPacketTime = 0,
     nextChannelHopInterval = 250, nextLifecycleInterval = 3500,
     isMeshDetected = False, meshCache = [], recentSenders = [],
     lastLearnedSSID = [], totalPacketCount = 0, learnedDataCount = 0,
     interactionCount = 0, junkPacketCount = 0, sniffedPacketCount = 0,
     meshRelayCount = 0, packets2G = 0, packets5G = 0, activeTimeTotal = 0,
     meshRadioTime = 0, ghostRadioTime = 0,
     rnd = (\<lambda>i. 0), clock = [], radio = []\<rparr>"



text \<open>
  A received probe request whose SSID element announces \<open>n\<close> octets, all of them the
  letter a.
\<close>

definition probe_pkt :: "nat \<Rightarrow> wifi_promiscuous_pkt" where
  "probe_pkt n =
     \<lparr>sig_len = 26 + n,
      rx_payload = (\<lambda>i. if i = 0 then 0x40 else if i = 24 then 0x00
                         else if i = 25 then of_nat n else 0x61)\<rparr>"

definition ssid_ab :: "byte list" where
  "ssid_ab = [0x61, 0x62]"

definition sys_pools :: sys where
  "sys_pools = sys0\<lparr>activeSwarm := replicate 20 dev_legacy, dormantSwarm := replicate 10 dev_common\<rparr>"

section \<open>Observing the radio log\<close>

text \<open>The device frames of a log, in order, each with the device it was built for.\<close>

fun device_tx :: "radio_event list \<Rightarrow> (VirtualDevice \<times> byte list) list" where
  "device_tx [] = []"
| "device_tx (Tx (FromDevice vd) f # es) = (vd, f) # device_tx es"
| "device_tx (e # es) = device_tx es"

text \<open>What the noise filler adds to the log: power settings and noise probes.\<close>

fun noise_event :: "radio_event \<Rightarrow> bool" where
  "noise_event (SetMaxTxPower p) = True"
| "noise_event (Tx FromNoise f) = (f ! 23 = 0)"
| "noise_event e = False"

text \<open>
  The effect of a noise gap on the state: the generator, the clock, the log and the
  two packet counters move, everything else stays.
\<close>

definition noise_step :: "sys \<Rightarrow> sys \<Rightarrow> bool" where
  "noise_step s s' \<longleftrightarrow>
     (\<exists>g c new t j.
        s' = s\<lparr>rnd := g, clock := c, radio := radio s @ new,
                totalPacketCount := t, junkPacketCount := j\<rparr>
        \<and> list_all noise_event new)"

text \<open>The sequence number \<open>i\<close> steps after \<open>sq\<close>, modulo 4096.\<close>

definition seq_plus :: "16 word \<Rightarrow> nat \<Rightarrow> 16 word" where
  "seq_plus sq i = of_nat ((unat sq + i) mod 4096)"

text \<open>
  What a hop on band \<open>b\<close> (\<open>True\<close> for 5 GHz) may add to the log: a device frame
  on 5 GHz comes from a device that is not Legacy, and, where the stored sequence
  numbers are known to be below 4096 (\<open>q\<close>), a device frame has a zero second
  Sequence Control byte; a beacon and a noise probe have it always. A relayed mesh
  frame is sent as it was received.
\<close>

fun ev_ok :: "bool \<Rightarrow> bool \<Rightarrow> radio_event \<Rightarrow> bool" where
  "ev_ok q b (Tx (FromDevice vd) f) =
     ((q \<longrightarrow> f ! 23 = 0) \<and> (b \<longrightarrow> generation vd \<noteq> GEN_LEGACY))"
| "ev_ok q b (Tx FromMeshRelay f) = True"
| "ev_ok q b (Tx FromNoise f) = (f ! 23 = 0)"
| "ev_ok q b (Tx FromBeacon f) = (f ! 23 = 0)"
| "ev_ok q b e = True"

definition grows :: "(radio_event \<Rightarrow> bool) \<Rightarrow> sys \<Rightarrow> sys \<Rightarrow> bool" where
  "grows P s s' \<longleftrightarrow> (\<exists>new. radio s' = radio s @ new \<and> list_all P new)"

definition seq_ok :: "VirtualDevice \<Rightarrow> bool" where
  "seq_ok vd \<longleftrightarrow> sequenceNumber vd < 4096"

definition seq_inv :: "sys \<Rightarrow> bool" where
  "seq_inv s \<longleftrightarrow> list_all seq_ok (activeSwarm s) \<and> list_all seq_ok (dormantSwarm s)"

text \<open>
  What holds of the state while a packet slot works on the device at \<open>swarmIdx\<close>
  on band \<open>b\<close>, and what holds between slots; \<open>q\<close> says whether the bound on
  the stored sequence numbers is part of it, \<open>M\<close> is the mesh state, which a hop
  reads and never writes.
\<close>

type_synonym mesh_state = "bool \<times> CachedMessage list \<times> byte list list \<times> mac_addr"

definition mesh_view :: "sys \<Rightarrow> mesh_state" where
  "mesh_view s = (isMeshDetected s, meshCache s, meshQueue s, local_mac_addr s)"

definition slot_inv :: "nat \<Rightarrow> bool \<Rightarrow> bool \<Rightarrow> mesh_state \<Rightarrow> sys \<Rightarrow> bool" where
  "slot_inv swarmIdx q b M s \<longleftrightarrow>
     swarmIdx < length (activeSwarm s) \<and> (q \<longrightarrow> seq_inv s) \<and> is5GHzBand s = b
     \<and> mesh_view s = M
     \<and> (b \<longrightarrow> generation (activeSwarm s ! swarmIdx) \<noteq> GEN_LEGACY)"

definition hop_inv :: "bool \<Rightarrow> bool \<Rightarrow> mesh_state \<Rightarrow> sys \<Rightarrow> bool" where
  "hop_inv q b M s \<longleftrightarrow> (q \<longrightarrow> seq_inv s) \<and> is5GHzBand s = b \<and> mesh_view s = M"

text \<open>
  A clock that advances at every reading (no two readings equal, no wrap-around of the
  32-bit counter within the run) and is observed for at least \<open>n\<close> more readings.
\<close>

definition ticking :: "nat \<Rightarrow> sys \<Rightarrow> bool" where
  "ticking n s \<longleftrightarrow> sorted_wrt (<) (map unat (clock s)) \<and> n \<le> length (clock s)"

definition sys_5g_legacy :: sys where
  "sys_5g_legacy = sys0\<lparr>is5GHzBand := True, currentChannel := 36, activeSwarm := [dev_legacy]\<rparr>"

text \<open>A clock read once every millisecond from 1000 on, 20000 times.\<close>

definition clock_1ms :: "millis_t list" where
  "clock_1ms = map of_nat [1000 ..< 21000]"

definition sys_5g_modern :: sys where
  "sys_5g_modern = sys0\<lparr>is5GHzBand := True, currentChannel := 36, rnd := (\<lambda>i. 50),
     clock := clock_1ms\<rparr>"

definition sys_hop :: sys where
  "sys_hop = sys0\<lparr>rnd := (\<lambda>i. 50), clock := clock_1ms\<rparr>"

text \<open>
  A run of sequence numbers: every frame carries the number current when it is built,
  and the number then moves on by one, modulo 4096; \<open>qe\<close> is the number left behind.
\<close>

fun seq_chain :: "16 word \<Rightarrow> 16 word list \<Rightarrow> 16 word \<Rightarrow> bool" where
  "seq_chain q [] qe = (qe = q)"
| "seq_chain q (x # xs) qe = (x = q \<and> seq_chain (seq_plus q 1) xs qe)"

text \<open>
  A frame of the radio log that was built for the device with MAC \<open>m\<close>: the log
  names the device it was built for, address 2 of the frame (offset 10) is that MAC, and
  the Sequence Control field (offset 22) is the one of the device's sequence number at
  the time.
\<close>

definition sent_by :: "mac_addr \<Rightarrow> VirtualDevice \<times> byte list \<Rightarrow> bool" where
  "sent_by m x \<longleftrightarrow>
     mac (fst x) = m \<and> take 6 (drop 10 (snd x)) = mac_bytes m
     \<and> take 2 (drop 22 (snd x)) = seq_ctl (sequenceNumber (fst x))"

text \<open>
  What a stretch of the interaction simulation does for the device at \<open>swarmIdx\<close>:
  the device frames \<open>fs\<close> are added to the log, their sequence numbers form a run,
  they carry the device's MAC, and the SSID store, the band and the interaction counter are
  as before.
\<close>

definition dev_effect :: "nat \<Rightarrow> sys \<Rightarrow> sys \<Rightarrow> (VirtualDevice \<times> byte list) list \<Rightarrow> bool" where
  "dev_effect swarmIdx s s' fs \<longleftrightarrow>
     device_tx (radio s') = device_tx (radio s) @ fs
     \<and> length (activeSwarm s') = length (activeSwarm s)
     \<and> interactionCount s' = interactionCount s
     \<and> activeSSIDs s' = activeSSIDs s
     \<and> is5GHzBand s' = is5GHzBand s
     \<and> mac (activeSwarm s' ! swarmIdx) = mac (activeSwarm s ! swarmIdx)
     \<and> seq_chain (sequenceNumber (activeSwarm s ! swarmIdx)) (map (sequenceNumber \<circ> fst) fs)
          (sequenceNumber (activeSwarm s' ! swarmIdx))
     \<and> list_all (sent_by (mac (activeSwarm s ! swarmIdx))) fs"

section \<open>Start-up population\<close>

definition SEED_SSIDS :: "byte list list" where
  "SEED_SSIDS = map (map (\<lambda>c. of_nat (of_char c)))
     [''xfinitywifi'', ''Starbucks WiFi'', ''attwifi'', ''Google Starbucks'',
      ''iPhone'', ''AndroidAP'', ''Guest'', ''linksys'', ''netgear'',
      ''Free Public WiFi'', ''T-Mobile'', ''Home'', ''Office'',
      ''Spectrum'', ''optimumwifi'', ''CoxWiFi'', ''Lowe's Wi-Fi'',
      ''Target Guest Wi-Fi'', ''McDonalds Free WiFi'', ''BURGER KING FREE WIFI'',
      ''Subway WiFi'', ''PaneraBread_WiFi'', ''Airport_Free_WiFi'',
      ''Marriott_Guest'', ''Hilton_Honors'', ''Walmart_WiFi'',
      ''DIRECTV_WIFI'', ''HP-Print-B2-LaserJet'', ''Roku-829'', ''Sonos_WiFi'']"

text \<open>
  The population loop of \<open>initSwarm()\<close>: \<open>n\<close> iterations are left, \<open>i\<close> is the
  loop counter, and \<open>heap i\<close> is the free heap the platform reports in iteration \<open>i\<close>.
\<close>

fun populate :: "nat \<Rightarrow> nat \<Rightarrow> (nat \<Rightarrow> nat) \<Rightarrow> sys \<Rightarrow> sys" where
  "populate 0 i heap s = s"
| "populate (Suc n) i heap s =
     (let (vd, g) = generateWeightedIdentity (activeSSIDs s) (rnd s);
          s1 = s\<lparr>rnd := g, activeSwarm := activeSwarm s @ [vd]\<rparr>
      in if heap i < 20000 then s1 else populate n (Suc i) heap s1)"

definition initSwarm :: "(nat \<Rightarrow> nat) \<Rightarrow> sys \<Rightarrow> sys" where
  "initSwarm heap s =
     populate TARGET_ACTIVE_POOL 0 heap (s\<lparr>activeSSIDs := activeSSIDs s @ take NUM_SEED_SSIDS SEED_SSIDS\<rparr>)"

text \<open>
  The frames of a log that a builder of the firmware produced: all transmissions but
  the relayed mesh frames, which are sent as they were received.
\<close>

fun built_tx :: "radio_event list \<Rightarrow> byte list list" where
  "built_tx [] = []"
| "built_tx (Tx FromMeshRelay f # es) = built_tx es"
| "built_tx (Tx origin f # es) = f # built_tx es"
| "built_tx (e # es) = built_tx es"

text \<open>
  The effect of the mesh listener on the state: the mesh queue, the sender list, the
  cache, the detection flag, the time of the last mesh packet and the clock move,
  everything else stays.
\<close>

definition mesh_step :: "sys \<Rightarrow> sys \<Rightarrow> bool" where
  "mesh_step s s' \<longleftrightarrow>
     (\<exists>q rs c d t k.
        s' = s\<lparr>meshQueue := q, recentSenders := rs, meshCache := c,
                isMeshDetected := d, lastMeshPacketTime := t, clock := k\<rparr>)"

definition pools :: "sys \<Rightarrow> VirtualDevice list \<times> VirtualDevice list" where
  "pools s = (activeSwarm s, dormantSwarm s)"

section \<open>Observing the mesh state\<close>









section \<open>Basic facts\<close>

lemma length_mac_bytes [simp]: "length (mac_bytes m) = 6"
  by (cases m) simp

lemma length_seq_ctl [simp]: "length (seq_ctl sq) = 2"
  by (simp add: seq_ctl_def)

lemma length_bcast [simp]: "length bcast = 6"
  by (simp add: bcast_def)

lemma length_probe_header [simp]: "length (probe_header vd) = 24"
  by (simp add: probe_header_def)

lemma length_assoc_header [simp]: "length (assoc_header vd) = 28"
  by (simp add: assoc_header_def)

lemma tables_length [simp]:
  "length HT_CAPS_PAYLOAD = 25" "length VHT_CAPS_PAYLOAD = 12" "length HE_CAPS_PAYLOAD = 22"
  "length APPLE_VEND_PAYLOAD = 7" "length WFA_VEND_PAYLOAD = 9" "length RSN_PAYLOAD = 20"
  "length RATES_LEGACY = 4" "length RATES_MODERN_2G = 8" "length RATES_5G = 8"
  "length extCap = 8" "length extCapAnd = 8"
  by (simp_all add: HT_CAPS_PAYLOAD_def VHT_CAPS_PAYLOAD_def HE_CAPS_PAYLOAD_def
      APPLE_VEND_PAYLOAD_def WFA_VEND_PAYLOAD_def RSN_PAYLOAD_def RATES_LEGACY_def
      RATES_MODERN_2G_def RATES_5G_def extCap_def extCapAnd_def)

lemma random_less: "0 < n \<Longrightarrow> fst (random n g) < n"
  by (simp add: random_def)

lemma random2_bounds:
  assumes "lo < hi"
  shows "lo \<le> fst (random2 lo hi g)" and "fst (random2 lo hi g) < hi"
proof -
  have "g 0 mod (hi - lo) < hi - lo" using assms by simp
  then have "g 0 mod (hi - lo) + lo < hi" by linarith
  then show "lo \<le> fst (random2 lo hi g)" and "fst (random2 lo hi g) < hi"
    using assms by (simp_all add: random2_def random_def)
qed

lemma length_random_fill [simp]: "length (fst (random_fill n lo hi g)) = n"
  by (induction n arbitrary: g) (simp_all add: split_def Let_def)

subsection \<open>Parsing what the builders emit\<close>

lemma parse_ies_elem:
  "length p < 256 \<Longrightarrow>
   parse_ies (t # of_nat (length p) # p @ rest) = map_option (Cons (t, p)) (parse_ies rest)"
  by (simp add: unat_of_nat take_bit_nat_eq_self)

lemma parse_ies_of:
  "\<forall>(t, p) \<in> set xs. length p < 256 \<Longrightarrow> parse_ies (ies_of xs) = Some xs"
proof (induction xs)
  case Nil
  then show ?case by (simp add: ies_of_def)
next
  case (Cons x xs)
  obtain t p where x: "x = (t, p)" by (cases x)
  from Cons.prems x have lp: "length p < 256" by simp
  from Cons have ih: "parse_ies (ies_of xs) = Some xs" by simp
  have "ies_of (x # xs) = t # of_nat (length p) # p @ ies_of xs"
    by (simp add: ies_of_def x)
  then show ?case using parse_ies_elem[OF lp, of t "ies_of xs"] ih x by simp
qed

lemma ies_of_append: "ies_of (xs @ ys) = ies_of xs @ ies_of ys"
  by (simp add: ies_of_def)

lemma length_ies_of: "length (ies_of xs) = (\<Sum>e\<leftarrow>xs. 2 + length (snd e))"
  by (induction xs) (simp_all add: ies_of_def split_def)

lemma length_probe_rates: "length (probe_rates is5 gen) \<le> 8"
  by (simp add: probe_rates_def)

lemma add_rates_eq: "add_rates is5 gen buf = buf @ ies_of [(1, probe_rates is5 gen)]"
  by (simp add: add_rates_def probe_rates_def addTag_def ies_of_def)

lemma add_he_eq:
  "add_he gen buf = buf @ ies_of (if gen = GEN_MODERN then [(255, 35 # HE_CAPS_PAYLOAD)] else [])"
  by (simp add: add_he_def ies_of_def)

lemma addTag_eq: "len = length p \<Longrightarrow> addTag buf t p len = buf @ ies_of [(t, p)]"
  by (simp add: addTag_def ies_of_def)

lemma buildProbePacket_shape:
  "\<exists>ssid. (ssid = [] \<or> ssid \<in> set ssids \<or> length ssid = 7) \<and>
     fst (buildProbePacket is5 ssids vd channel g) =
       probe_header vd @ ies_of (probe_ies_spec vd ssid (probe_rates is5 (generation vd)) channel)"
proof -
  define w where "w = (if generation vd = GEN_LEGACY \<or> platform vd = PLATFORM_OTHER
             then (let (r, g') = random 100 g in (r < 40, g'))
             else (False, g))"
  define ssid where "ssid = (if fst w then [] else fst (probe_ssid ssids vd (snd w)))"
  have a: "ssid = [] \<or> ssid \<in> set ssids \<or> length ssid = 7"
    unfolding ssid_def probe_ssid_def index_below_size_def
    by (auto simp: split_def Let_def random_def nat_less_iff)
  have b: "fst (buildProbePacket is5 ssids vd channel g) =
       probe_header vd @ ies_of (probe_ies_spec vd ssid (probe_rates is5 (generation vd)) channel)"
    unfolding buildProbePacket_def w_def[symmetric]
    by (simp add: Let_def split_def add_rates_eq add_he_eq addTag_eq ssid_def
         probe_header_def probe_ies_spec_def ies_of_append)
       (simp add: ies_of_def)
  from a b show ?thesis by (intro exI conjI)
qed

lemma buildAssocRequestPacket_shape:
  "buildAssocRequestPacket is5 vd ssid =
     assoc_header vd @ ies_of (assoc_ies_spec vd ssid (probe_rates is5 (generation vd)))"
  unfolding buildAssocRequestPacket_def
  by (simp add: Let_def add_rates_eq add_he_eq addTag_eq assoc_header_def assoc_ies_spec_def
        ies_of_append)
     (simp add: ies_of_def)

lemma probe_ies_spec_short:
  "length ssid < 256 \<Longrightarrow>
   \<forall>(t, p) \<in> set (probe_ies_spec vd ssid (probe_rates is5 gen) channel). length p < 256"
  by (auto simp: probe_ies_spec_def probe_rates_def)

lemma assoc_ies_spec_short:
  "length ssid < 256 \<Longrightarrow>
   \<forall>(t, p) \<in> set (assoc_ies_spec vd ssid (probe_rates is5 gen)). length p < 256"
  by (auto simp: assoc_ies_spec_def probe_rates_def)

lemma probe_parse:
  assumes "\<forall>s \<in> set ssids. length s < 256"
  shows "\<exists>ssid. parse_ies (drop 24 (fst (buildProbePacket is5 ssids vd channel g))) =
           Some (probe_ies_spec vd ssid (probe_rates is5 (generation vd)) channel)"
proof -
  obtain ssid where a: "ssid = [] \<or> ssid \<in> set ssids \<or> length ssid = 7"
    and b: "fst (buildProbePacket is5 ssids vd channel g) =
       probe_header vd @ ies_of (probe_ies_spec vd ssid (probe_rates is5 (generation vd)) channel)"
    using buildProbePacket_shape[of ssids is5 vd channel g] by (elim exE conjE)
  have l: "length ssid < 256"
  proof -
    { assume "ssid \<in> set ssids"
      with assms have ?thesis by simp }
    with a show ?thesis by fastforce
  qed
  have "parse_ies (ies_of (probe_ies_spec vd ssid (probe_rates is5 (generation vd)) channel))
      = Some (probe_ies_spec vd ssid (probe_rates is5 (generation vd)) channel)"
    by (rule parse_ies_of[OF probe_ies_spec_short[OF l]])
  then have "parse_ies (drop 24 (fst (buildProbePacket is5 ssids vd channel g))) =
           Some (probe_ies_spec vd ssid (probe_rates is5 (generation vd)) channel)"
    by (simp only: b drop_append length_probe_header drop_all diff_self_eq_0 drop_0 append_Nil
          order_refl)
  then show ?thesis by (rule exI)
qed

lemma assoc_parse:
  assumes "length ssid < 256"
  shows "parse_ies (drop 28 (buildAssocRequestPacket is5 vd ssid)) =
           Some (assoc_ies_spec vd ssid (probe_rates is5 (generation vd)))"
  using parse_ies_of[OF assoc_ies_spec_short[OF assms], of vd is5 "generation vd"]
  by (simp only: buildAssocRequestPacket_shape drop_append length_assoc_header drop_all
        diff_self_eq_0 drop_0 append_Nil order_refl)

section \<open>Era enforcement in probe and association requests\<close>

text \<open>
  Claim C1. For every device and every frame the probe-request builder or the
  association-request builder emits for it (with SSIDs short enough for the one-byte
  length field, as every SSID of the store is): the frame body parses as a sequence of
  elements; if the device is Legacy no element has tag 191 (VHT Capabilities) and none
  is an extension element (tag 255) with extension id 35 (HE Capabilities); if the
  device is Common none is an extension element with extension id 35.
\<close>

theorem era_enforcement:
  assumes "\<forall>s \<in> set ssids. length s < 256" and "length ssid < 256"
  shows "\<exists>pies aies.
           parse_ies (drop 24 (fst (buildProbePacket is5 ssids vd channel g))) = Some pies
         \<and> parse_ies (drop 28 (buildAssocRequestPacket is5 vd ssid)) = Some aies
         \<and> (generation vd = GEN_LEGACY \<longrightarrow>
              \<not> (\<exists>e \<in> set pies \<union> set aies. is_vht_caps e \<or> is_he_caps e))
         \<and> (generation vd = GEN_COMMON \<longrightarrow>
              \<not> (\<exists>e \<in> set pies \<union> set aies. is_he_caps e))"
proof -
  obtain s where p: "parse_ies (drop 24 (fst (buildProbePacket is5 ssids vd channel g))) =
           Some (probe_ies_spec vd s (probe_rates is5 (generation vd)) channel)"
    using probe_parse[OF assms(1), of is5 vd channel g] by (elim exE)
  note a = assoc_parse[OF assms(2), of is5 vd]
  have l: "generation vd = GEN_LEGACY \<longrightarrow>
       \<not> (\<exists>e \<in> set (probe_ies_spec vd s (probe_rates is5 (generation vd)) channel)
              \<union> set (assoc_ies_spec vd ssid (probe_rates is5 (generation vd))).
            is_vht_caps e \<or> is_he_caps e)"
    by (auto simp: probe_ies_spec_def assoc_ies_spec_def is_vht_caps_def is_he_caps_def)
  have c: "generation vd = GEN_COMMON \<longrightarrow>
       \<not> (\<exists>e \<in> set (probe_ies_spec vd s (probe_rates is5 (generation vd)) channel)
              \<union> set (assoc_ies_spec vd ssid (probe_rates is5 (generation vd))).
            is_he_caps e)"
    by (auto simp: probe_ies_spec_def assoc_ies_spec_def is_he_caps_def)
  from p a l c show ?thesis by (intro exI conjI)
qed

theorem era_enforcement_witness:
  "length ssid_Home < 256
   \<and> generation dev_legacy = GEN_LEGACY \<and> generation dev_common = GEN_COMMON
   \<and> (\<exists>pies aies.
           parse_ies (drop 24 (fst (buildProbePacket False [ssid_Home] dev_legacy 6 (\<lambda>i. 50))))
             = Some pies
         \<and> parse_ies (drop 28 (buildAssocRequestPacket False dev_legacy ssid_Home)) = Some aies
         \<and> \<not> (\<exists>e \<in> set pies \<union> set aies. is_vht_caps e \<or> is_he_caps e))
   \<and> (\<exists>pies aies.
           parse_ies (drop 24 (fst (buildProbePacket True [ssid_Home] dev_common 36 (\<lambda>i. 50))))
             = Some pies
         \<and> parse_ies (drop 28 (buildAssocRequestPacket True dev_common ssid_Home)) = Some aies
         \<and> \<not> (\<exists>e \<in> set pies \<union> set aies. is_he_caps e))"
proof -
  have h1: "\<forall>s \<in> set [ssid_Home]. length s < 256" by (simp add: ssid_Home_def)
  have h2: "length ssid_Home < 256" by (simp add: ssid_Home_def)
  have g1: "generation dev_legacy = GEN_LEGACY" by (simp add: dev_legacy_def)
  have g2: "generation dev_common = GEN_COMMON" by (simp add: dev_common_def)
  from era_enforcement[OF h1 h2, where ?is5.0 = False and vd = dev_legacy and channel = 6
      and g = "\<lambda>i. 50"]
  obtain p1 a1 where
    A1: "parse_ies (drop 24 (fst (buildProbePacket False [ssid_Home] dev_legacy 6 (\<lambda>i. 50))))
           = Some p1"
    and B1: "parse_ies (drop 28 (buildAssocRequestPacket False dev_legacy ssid_Home)) = Some a1"
    and C1: "generation dev_legacy = GEN_LEGACY \<longrightarrow>
              \<not> (\<exists>e \<in> set p1 \<union> set a1. is_vht_caps e \<or> is_he_caps e)"
    by (elim exE conjE)
  from C1 g1 have D1: "\<not> (\<exists>e \<in> set p1 \<union> set a1. is_vht_caps e \<or> is_he_caps e)" by (rule mp)
  from era_enforcement[OF h1 h2, where ?is5.0 = True and vd = dev_common and channel = 36
      and g = "\<lambda>i. 50"]
  obtain p2 a2 where
    A2: "parse_ies (drop 24 (fst (buildProbePacket True [ssid_Home] dev_common 36 (\<lambda>i. 50))))
           = Some p2"
    and B2: "parse_ies (drop 28 (buildAssocRequestPacket True dev_common ssid_Home)) = Some a2"
    and C2: "generation dev_common = GEN_COMMON \<longrightarrow> \<not> (\<exists>e \<in> set p2 \<union> set a2. is_he_caps e)"
    by (elim exE conjE)
  from C2 g2 have D2: "\<not> (\<exists>e \<in> set p2 \<union> set a2. is_he_caps e)" by (rule mp)
  from h2 g1 g2 A1 B1 D1 A2 B2 D2 show ?thesis by (intro conjI exI)
qed

section \<open>Element order of a probe request\<close>

lemma probe_apple_vendor:
  "platform vd = PLATFORM_IOS \<Longrightarrow>
   filter is_apple_vendor (probe_ies_spec vd ssid rates channel) = [(221, APPLE_VEND_PAYLOAD)]"
  by (simp add: probe_ies_spec_def is_apple_vendor_def APPLE_VEND_PAYLOAD_def
        WFA_VEND_PAYLOAD_def)

lemma probe_apple_last:
  "platform vd = PLATFORM_IOS \<Longrightarrow>
   \<exists>pre. probe_ies_spec vd ssid rates channel =
     pre @ [(221, WFA_VEND_PAYLOAD), (221, APPLE_VEND_PAYLOAD)]"
  by (simp add: probe_ies_spec_def)

text \<open>
  Claim C3. Every probe request lists its elements in the order SSID (tag 0),
  Supported Rates (1), DS Parameter Set (3), the Apple Extended Capabilities (127) if
  the platform is iOS, HT Capabilities (45), VHT Capabilities (191) unless Legacy, the
  other Extended Capabilities (127) if neither iOS nor Legacy, HE Capabilities
  (255, extension 35) if Modern, the WFA vendor element (221), and last the Apple vendor
  element (221) if iOS: the frame body parses to exactly \<open>probe_ies_spec\<close>. For an
  iOS device exactly one element is a tag-221 element with the Apple OUI, and it is
  the last element, directly after the WFA vendor element.
\<close>

theorem probe_ie_order:
  assumes "\<forall>s \<in> set ssids. length s < 256"
  shows "\<exists>ssid ies.
           parse_ies (drop 24 (fst (buildProbePacket is5 ssids vd channel g))) = Some ies
         \<and> ies = probe_ies_spec vd ssid (probe_rates is5 (generation vd)) channel
         \<and> (platform vd = PLATFORM_IOS \<longrightarrow>
              filter is_apple_vendor ies = [(221, APPLE_VEND_PAYLOAD)]
              \<and> (\<exists>pre. ies = pre @ [(221, WFA_VEND_PAYLOAD), (221, APPLE_VEND_PAYLOAD)]))"
proof -
  obtain s where p: "parse_ies (drop 24 (fst (buildProbePacket is5 ssids vd channel g))) =
           Some (probe_ies_spec vd s (probe_rates is5 (generation vd)) channel)"
    using probe_parse[OF assms, of is5 vd channel g] by (elim exE)
  have q: "platform vd = PLATFORM_IOS \<longrightarrow>
      filter is_apple_vendor (probe_ies_spec vd s (probe_rates is5 (generation vd)) channel)
        = [(221, APPLE_VEND_PAYLOAD)]
      \<and> (\<exists>pre. probe_ies_spec vd s (probe_rates is5 (generation vd)) channel
            = pre @ [(221, WFA_VEND_PAYLOAD), (221, APPLE_VEND_PAYLOAD)])"
    using probe_apple_vendor probe_apple_last by (intro impI conjI)
  show ?thesis
  proof (intro exI conjI)
    show "parse_ies (drop 24 (fst (buildProbePacket is5 ssids vd channel g))) =
           Some (probe_ies_spec vd s (probe_rates is5 (generation vd)) channel)"
      by (rule p)
    show "probe_ies_spec vd s (probe_rates is5 (generation vd)) channel =
          probe_ies_spec vd s (probe_rates is5 (generation vd)) channel"
      by (rule refl)
    show "platform vd = PLATFORM_IOS \<longrightarrow>
      filter is_apple_vendor (probe_ies_spec vd s (probe_rates is5 (generation vd)) channel)
        = [(221, APPLE_VEND_PAYLOAD)]
      \<and> (\<exists>pre. probe_ies_spec vd s (probe_rates is5 (generation vd)) channel
            = pre @ [(221, WFA_VEND_PAYLOAD), (221, APPLE_VEND_PAYLOAD)])"
      by (rule q)
  qed
qed

theorem probe_ie_order_witness:
  "length ssid_Home < 256 \<and> platform dev_modern_ios = PLATFORM_IOS
   \<and> (\<exists>ssid ies.
         parse_ies (drop 24 (fst (buildProbePacket True [ssid_Home] dev_modern_ios 36 (\<lambda>i. 0))))
           = Some ies
       \<and> ies = probe_ies_spec dev_modern_ios ssid (probe_rates True GEN_MODERN) 36
       \<and> filter is_apple_vendor ies = [(221, APPLE_VEND_PAYLOAD)]
       \<and> (\<exists>pre. ies = pre @ [(221, WFA_VEND_PAYLOAD), (221, APPLE_VEND_PAYLOAD)]))"
proof -
  have h1: "\<forall>s \<in> set [ssid_Home]. length s < 256" by (simp add: ssid_Home_def)
  have h2: "length ssid_Home < 256" by (simp add: ssid_Home_def)
  have pl: "platform dev_modern_ios = PLATFORM_IOS" by (simp add: dev_modern_ios_def)
  have gn: "generation dev_modern_ios = GEN_MODERN" by (simp add: dev_modern_ios_def)
  from probe_ie_order[OF h1, where ?is5.0 = True and vd = dev_modern_ios and channel = 36
      and g = "\<lambda>i. 0"]
  obtain ssid ies where
    A: "parse_ies (drop 24 (fst (buildProbePacket True [ssid_Home] dev_modern_ios 36 (\<lambda>i. 0))))
           = Some ies"
    and B: "ies = probe_ies_spec dev_modern_ios ssid (probe_rates True (generation dev_modern_ios)) 36"
    and C: "platform dev_modern_ios = PLATFORM_IOS \<longrightarrow>
              filter is_apple_vendor ies = [(221, APPLE_VEND_PAYLOAD)]
              \<and> (\<exists>pre. ies = pre @ [(221, WFA_VEND_PAYLOAD), (221, APPLE_VEND_PAYLOAD)])"
    by (elim exE conjE)
  from C pl have DE: "filter is_apple_vendor ies = [(221, APPLE_VEND_PAYLOAD)]
      \<and> (\<exists>pre. ies = pre @ [(221, WFA_VEND_PAYLOAD), (221, APPLE_VEND_PAYLOAD)])"
    by (rule mp)
  from DE have D: "filter is_apple_vendor ies = [(221, APPLE_VEND_PAYLOAD)]" by (rule conjunct1)
  from DE have E: "\<exists>pre. ies = pre @ [(221, WFA_VEND_PAYLOAD), (221, APPLE_VEND_PAYLOAD)]"
    by (rule conjunct2)
  from B gn have B': "ies = probe_ies_spec dev_modern_ios ssid (probe_rates True GEN_MODERN) 36"
    by (simp only:)
  have X: "\<exists>ssid ies.
         parse_ies (drop 24 (fst (buildProbePacket True [ssid_Home] dev_modern_ios 36 (\<lambda>i. 0))))
           = Some ies
       \<and> ies = probe_ies_spec dev_modern_ios ssid (probe_rates True GEN_MODERN) 36
       \<and> filter is_apple_vendor ies = [(221, APPLE_VEND_PAYLOAD)]
       \<and> (\<exists>pre. ies = pre @ [(221, WFA_VEND_PAYLOAD), (221, APPLE_VEND_PAYLOAD)])"
    using A B' D E
    apply -
    apply (rule exI[of _ ssid])
    apply (rule exI[of _ ies])
    apply (intro conjI)
       apply assumption+
    done
  from h2 pl X show ?thesis by (intro conjI)
qed

section \<open>Frame lengths\<close>

lemma length_buildProbePacket:
  assumes "\<forall>s \<in> set ssids. length s \<le> 32"
  shows "length (fst (buildProbePacket is5 ssids vd channel g)) \<le> 177"
proof -
  obtain ssid where a: "ssid = [] \<or> ssid \<in> set ssids \<or> length ssid = 7"
    and b: "fst (buildProbePacket is5 ssids vd channel g) =
       probe_header vd @ ies_of (probe_ies_spec vd ssid (probe_rates is5 (generation vd)) channel)"
    using buildProbePacket_shape[of ssids is5 vd channel g] by (elim exE conjE)
  have l: "length ssid \<le> 32"
  proof -
    { assume "ssid \<in> set ssids"
      with assms have ?thesis by simp }
    with a show ?thesis by fastforce
  qed
  have "length (ies_of (probe_ies_spec vd ssid (probe_rates is5 (generation vd)) channel)) \<le> 153"
    using l by (auto simp: length_ies_of probe_ies_spec_def probe_rates_def)
  then show ?thesis by (simp add: b)
qed

lemma length_buildAssocRequestPacket:
  assumes "length ssid \<le> 32"
  shows "length (buildAssocRequestPacket is5 vd ssid) \<le> 161"
proof -
  have "length (ies_of (assoc_ies_spec vd ssid (probe_rates is5 (generation vd)))) \<le> 133"
    using assms by (auto simp: length_ies_of assoc_ies_spec_def probe_rates_def)
  then show ?thesis by (simp add: buildAssocRequestPacket_shape)
qed

lemma length_buildAuthPacket: "length (buildAuthPacket vd) = 30"
  by (simp add: buildAuthPacket_def)

lemma length_buildEncryptedDataPacket:
  "90 \<le> length (fst (buildEncryptedDataPacket vd g)) \<and>
   length (fst (buildEncryptedDataPacket vd g)) \<le> 537"
proof -
  define g1 where "g1 = snd (random2 0 8 g)"
  have "64 \<le> fst (random2 64 512 g1)" "fst (random2 64 512 g1) < 512"
    by (rule random2_bounds; simp)+
  then show ?thesis
    by (simp add: buildEncryptedDataPacket_def split_def Let_def g1_def)
qed

lemma length_buildBeaconPacket:
  assumes "length ssid \<le> 32"
  shows "length (buildBeaconPacket is5 m ssid channel sq) \<le> 114"
  using assms by (simp add: buildBeaconPacket_def Let_def addTag_def)

text \<open>
  Claim C9. For every device, band, channel, sequence number and random generator, and
  every SSID of at most 32 octets (given to the builder or held in the store), each of
  the five builders returns a length of at most 1024, the size of \<open>packetBuffer\<close>;
  every index a builder writes is below the length it returns.
\<close>

theorem builders_fit_buffer:
  assumes "\<forall>s \<in> set ssids. length s \<le> 32" and "length ssid \<le> 32"
  shows "length (fst (buildProbePacket is5 ssids vd channel g)) \<le> 1024
       \<and> length (buildBeaconPacket is5 m ssid channel sq) \<le> 1024
       \<and> length (buildAuthPacket vd) \<le> 1024
       \<and> length (buildAssocRequestPacket is5 vd ssid) \<le> 1024
       \<and> length (fst (buildEncryptedDataPacket vd g)) \<le> 1024"
  using length_buildProbePacket[OF assms(1), of is5 vd channel g]
    length_buildBeaconPacket[OF assms(2), of is5 m channel sq]
    length_buildAuthPacket[of vd]
    length_buildAssocRequestPacket[OF assms(2), of is5 vd]
    length_buildEncryptedDataPacket[of vd g]
  by linarith

theorem builders_fit_buffer_witness:
  "length ssid_Home \<le> 32
   \<and> length (fst (buildProbePacket True [ssid_Home] dev_modern_ios 36 (\<lambda>i. 0))) \<le> 1024
   \<and> length (buildBeaconPacket True (0x02,0x11,0x22,1,2,3) ssid_Home 36 5) \<le> 1024
   \<and> length (buildAuthPacket dev_modern_ios) \<le> 1024
   \<and> length (buildAssocRequestPacket True dev_modern_ios ssid_Home) \<le> 1024
   \<and> length (fst (buildEncryptedDataPacket dev_modern_ios (\<lambda>i. 0))) \<le> 1024"
proof -
  have h1: "\<forall>s \<in> set [ssid_Home]. length s \<le> 32" by (simp add: ssid_Home_def)
  have h2: "length ssid_Home \<le> 32" by (simp add: ssid_Home_def)
  from h2 builders_fit_buffer[OF h1 h2, where ?is5.0 = True and vd = dev_modern_ios
      and channel = 36 and g = "\<lambda>i. 0" and m = "(0x02,0x11,0x22,1,2,3)" and sq = 5]
  show ?thesis by (rule conjI)
qed

section \<open>Weighted identities\<close>

lemma oui_lengths [simp]:
  "length OUI_APPLE = 15" "length OUI_SAMSUNG = 10" "length OUI_LEGACY_IOT = 7"
  "length OUI_MODERN_GEN = 8"
  by (simp_all add: OUI_APPLE_def OUI_SAMSUNG_def OUI_LEGACY_IOT_def OUI_MODERN_GEN_def)




















section \<open>Probe-learning sniffer\<close>

lemma sniffer_rejects:
  assumes "unat (rx_payload pkt 25) \<le> 1 \<or> 32 \<le> unat (rx_payload pkt 25)"
  shows "ssidQueue (snifferCallback ty pkt s) = ssidQueue s"
  using assms by (auto simp: snifferCallback_def Let_def)

lemma sniffer_accepts:
  assumes "rx_payload pkt 0 = 0x40" "rx_payload pkt 24 = 0x00"
    "2 \<le> unat (rx_payload pkt 25)" "unat (rx_payload pkt 25) \<le> 31"
  shows "ssidQueue (snifferCallback WIFI_PKT_MGMT pkt s) =
           xQueueSend SSID_QUEUE_LENGTH
             (map (rx_payload pkt) [26 ..< 26 + unat (rx_payload pkt 25)]) (ssidQueue s)"
  using assms by (simp add: snifferCallback_def Let_def)

text \<open>
  Claim C7, as amended. For every frame handed to the probe-learning callback: an SSID
  element of length 0, 1, or 32 and more is rejected, the queue stays as it was; for
  a management frame that is a probe request (first byte 0x40) with an SSID element at
  offset 24 of length 2 through 31, the SSID octets are offered to the SSID queue,
  which takes them at its end when it holds fewer than 20 records and drops them when
  it is full.
\<close>

theorem sniffer_ssid_lengths:
  "(unat (rx_payload pkt 25) \<le> 1 \<or> 32 \<le> unat (rx_payload pkt 25) \<longrightarrow>
      ssidQueue (snifferCallback ty pkt s) = ssidQueue s)
   \<and> (rx_payload pkt 0 = 0x40 \<and> rx_payload pkt 24 = 0x00
        \<and> 2 \<le> unat (rx_payload pkt 25) \<and> unat (rx_payload pkt 25) \<le> 31
        \<and> length (ssidQueue s) < 20 \<longrightarrow>
      ssidQueue (snifferCallback WIFI_PKT_MGMT pkt s) =
        ssidQueue s @ [map (rx_payload pkt) [26 ..< 26 + unat (rx_payload pkt 25)]])
   \<and> (20 \<le> length (ssidQueue s) \<longrightarrow>
      ssidQueue (snifferCallback ty pkt s) = ssidQueue s)"
proof (intro conjI impI)
  assume "unat (rx_payload pkt 25) \<le> 1 \<or> 32 \<le> unat (rx_payload pkt 25)"
  then show "ssidQueue (snifferCallback ty pkt s) = ssidQueue s" by (rule sniffer_rejects)
next
  assume a: "rx_payload pkt 0 = 0x40 \<and> rx_payload pkt 24 = 0x00
        \<and> 2 \<le> unat (rx_payload pkt 25) \<and> unat (rx_payload pkt 25) \<le> 31
        \<and> length (ssidQueue s) < 20"
  then show "ssidQueue (snifferCallback WIFI_PKT_MGMT pkt s) =
        ssidQueue s @ [map (rx_payload pkt) [26 ..< 26 + unat (rx_payload pkt 25)]]"
    by (simp add: sniffer_accepts xQueueSend_def SSID_QUEUE_LENGTH_def)
next
  assume "20 \<le> length (ssidQueue s)"
  then show "ssidQueue (snifferCallback ty pkt s) = ssidQueue s"
    by (simp add: snifferCallback_def Let_def xQueueSend_def SSID_QUEUE_LENGTH_def)
qed

lemma probe_pkt_simps:
  "rx_payload (probe_pkt n) 0 = 0x40" "rx_payload (probe_pkt n) 24 = 0x00"
  "rx_payload (probe_pkt n) 25 = of_nat n"
  by (simp_all add: probe_pkt_def)

theorem sniffer_ssid_lengths_witness:
  "unat (rx_payload (probe_pkt 0) 25) \<le> 1
   \<and> ssidQueue (snifferCallback WIFI_PKT_MGMT (probe_pkt 0) sys0) = ssidQueue sys0
   \<and> rx_payload (probe_pkt 2) 0 = 0x40 \<and> rx_payload (probe_pkt 2) 24 = 0x00
   \<and> 2 \<le> unat (rx_payload (probe_pkt 2) 25) \<and> unat (rx_payload (probe_pkt 2) 25) \<le> 31
   \<and> length (ssidQueue sys0) < 20
   \<and> ssidQueue (snifferCallback WIFI_PKT_MGMT (probe_pkt 2) sys0) =
        ssidQueue sys0 @ [map (rx_payload (probe_pkt 2)) [26 ..< 26 + unat (rx_payload (probe_pkt 2) 25)]]
   \<and> 20 \<le> length (ssidQueue (sys0\<lparr>ssidQueue := replicate 20 ssid_ab\<rparr>))
   \<and> ssidQueue (snifferCallback WIFI_PKT_MGMT (probe_pkt 2) (sys0\<lparr>ssidQueue := replicate 20 ssid_ab\<rparr>))
        = ssidQueue (sys0\<lparr>ssidQueue := replicate 20 ssid_ab\<rparr>)"
proof -
  have a: "unat (rx_payload (probe_pkt 0) 25) \<le> 1" by (simp add: probe_pkt_simps)
  have b: "rx_payload (probe_pkt 2) 0 = 0x40 \<and> rx_payload (probe_pkt 2) 24 = 0x00
        \<and> 2 \<le> unat (rx_payload (probe_pkt 2) 25) \<and> unat (rx_payload (probe_pkt 2) 25) \<le> 31
        \<and> length (ssidQueue sys0) < 20"
    by (simp add: probe_pkt_simps sys0_def)
  have c: "20 \<le> length (ssidQueue (sys0\<lparr>ssidQueue := replicate 20 ssid_ab\<rparr>))" by simp
  note t1 = sniffer_ssid_lengths[where pkt = "probe_pkt 0" and ty = WIFI_PKT_MGMT and s = sys0]
  note t2 = sniffer_ssid_lengths[where pkt = "probe_pkt 2" and ty = WIFI_PKT_MGMT and s = sys0]
  note t3 = sniffer_ssid_lengths[where pkt = "probe_pkt 2" and ty = WIFI_PKT_MGMT
      and s = "sys0\<lparr>ssidQueue := replicate 20 ssid_ab\<rparr>"]
  from t1 a have r1: "ssidQueue (snifferCallback WIFI_PKT_MGMT (probe_pkt 0) sys0) = ssidQueue sys0"
    by blast
  from t2 b have r2: "ssidQueue (snifferCallback WIFI_PKT_MGMT (probe_pkt 2) sys0) =
        ssidQueue sys0 @ [map (rx_payload (probe_pkt 2)) [26 ..< 26 + unat (rx_payload (probe_pkt 2) 25)]]"
    by blast
  from t3 c have r3: "ssidQueue (snifferCallback WIFI_PKT_MGMT (probe_pkt 2)
         (sys0\<lparr>ssidQueue := replicate 20 ssid_ab\<rparr>))
        = ssidQueue (sys0\<lparr>ssidQueue := replicate 20 ssid_ab\<rparr>)"
    by blast
  from a r1 b r2 c r3 show ?thesis by blast
qed

text \<open>
  The claim as first stated has every SSID of 1 through 32 octets accepted. With room
  in the queue, a probe request with a one-octet SSID and one with a 32-octet SSID
  leave the queue empty.
\<close>

theorem sniffer_ssid_lengths_counterexample:
  "rx_payload (probe_pkt 1) 0 = 0x40 \<and> rx_payload (probe_pkt 1) 24 = 0x00
   \<and> unat (rx_payload (probe_pkt 1) 25) = 1
   \<and> ssidQueue sys0 = []
   \<and> ssidQueue (snifferCallback WIFI_PKT_MGMT (probe_pkt 1) sys0) = []
   \<and> rx_payload (probe_pkt 32) 0 = 0x40 \<and> rx_payload (probe_pkt 32) 24 = 0x00
   \<and> unat (rx_payload (probe_pkt 32) 25) = 32
   \<and> ssidQueue (snifferCallback WIFI_PKT_MGMT (probe_pkt 32) sys0) = []"
  by (simp add: snifferCallback_def probe_pkt_def sys0_def Let_def)

section \<open>Resource governor\<close>

lemma manageResources_low:
  assumes "freeHeap < 25000"
  shows "lowMemoryMode (manageResources freeHeap s)"
    and "dormantSwarm (manageResources freeHeap s)
           = drop (length (dormantSwarm s) * 3 div 10) (dormantSwarm s)"
  using assms by (auto simp: manageResources_def Let_def)

lemma manageResources_critical:
  assumes "freeHeap < 15000"
  shows "activeSwarm (manageResources freeHeap s)
           = drop (length (activeSwarm s) * 3 div 20) (activeSwarm s)"
  using assms by (auto simp: manageResources_def Let_def)

lemma manageResources_not_critical:
  assumes "15000 \<le> freeHeap"
  shows "activeSwarm (manageResources freeHeap s) = activeSwarm s"
  using assms by (auto simp: manageResources_def Let_def)

lemma manageResources_clear:
  assumes "25000 \<le> freeHeap"
  shows "\<not> lowMemoryMode (manageResources freeHeap s)"
    and "dormantSwarm (manageResources freeHeap s) = dormantSwarm s"
  using assms by (auto simp: manageResources_def Let_def)

lemma manageResources_ssids [simp]:
  "activeSSIDs (manageResources freeHeap s) = activeSSIDs s"
  by (auto simp: manageResources_def Let_def)

lemma learn_ssid_low: "lowMemoryMode s \<Longrightarrow> learn_ssid now slot s = s"
  by (simp add: learn_ssid_def Let_def)

lemma learn_ssid_lowMemoryMode [simp]:
  "lowMemoryMode (learn_ssid now slot s) = lowMemoryMode s"
  by (simp add: learn_ssid_def Let_def split_def)

lemma drain_low_aux:
  "lowMemoryMode s \<Longrightarrow> foldl (\<lambda>st slot. learn_ssid now slot st) s q = s"
  by (induction q) (simp_all add: learn_ssid_low)

lemma drain_low:
  "lowMemoryMode s \<Longrightarrow> drain_ssid_queue now s = s\<lparr>ssidQueue := []\<rparr>"
  by (simp add: drain_ssid_queue_def drain_low_aux)

lemma learn_ssid_new:
  assumes "\<not> lowMemoryMode s" "takeWhile (\<lambda>b. b \<noteq> 0) slot \<notin> set (activeSSIDs s)"
    "length (activeSSIDs s) < 205"
  shows "activeSSIDs (learn_ssid now slot s) = activeSSIDs s @ [takeWhile (\<lambda>b. b \<noteq> 0) slot]"
  using assms
  by (simp add: learn_ssid_def Let_def MAX_SSIDS_TO_LEARN_def CYCLE_CAP_BUFFER_def)

text \<open>
  Claim C6, as amended. On each governor tick: if free heap is below 25000 the
  low-memory flag is set and 30% of the dormant pool (three tenths of its size, rounded
  down) is dropped from the front; if free heap is moreover below 15000, 15% of the
  active pool is dropped from the front as well, and from 15000 upwards the active pool
  is left alone; if free heap is at least 25000 the flag is cleared and the dormant pool
  is left alone. Learned SSIDs are accepted only while the flag is clear: after any
  tick that saw less than 25000, also one in [15000, 25000), the queue is drained
  without the store changing, and with the flag clear a new name is appended while the
  store holds fewer than 205.
\<close>

theorem governor_tick:
  "(freeHeap < 25000 \<longrightarrow>
      lowMemoryMode (manageResources freeHeap s)
    \<and> dormantSwarm (manageResources freeHeap s)
        = drop (length (dormantSwarm s) * 3 div 10) (dormantSwarm s))
   \<and> (freeHeap < 15000 \<longrightarrow>
      activeSwarm (manageResources freeHeap s)
        = drop (length (activeSwarm s) * 3 div 20) (activeSwarm s))
   \<and> (15000 \<le> freeHeap \<longrightarrow> activeSwarm (manageResources freeHeap s) = activeSwarm s)
   \<and> (25000 \<le> freeHeap \<longrightarrow>
      \<not> lowMemoryMode (manageResources freeHeap s)
    \<and> dormantSwarm (manageResources freeHeap s) = dormantSwarm s)
   \<and> (freeHeap < 25000 \<longrightarrow>
      activeSSIDs (drain_ssid_queue now ((manageResources freeHeap s)\<lparr>ssidQueue := q\<rparr>))
        = activeSSIDs s)
   \<and> (\<not> lowMemoryMode s \<and> takeWhile (\<lambda>b. b \<noteq> 0) slot \<notin> set (activeSSIDs s)
        \<and> length (activeSSIDs s) < 205 \<longrightarrow>
      activeSSIDs (learn_ssid now slot s) = activeSSIDs s @ [takeWhile (\<lambda>b. b \<noteq> 0) slot])"
proof (intro conjI impI)
  assume a: "freeHeap < 25000"
  then show "lowMemoryMode (manageResources freeHeap s)" by (rule manageResources_low)
  from a show "dormantSwarm (manageResources freeHeap s)
        = drop (length (dormantSwarm s) * 3 div 10) (dormantSwarm s)"
    by (rule manageResources_low)
  from a have "lowMemoryMode ((manageResources freeHeap s)\<lparr>ssidQueue := q\<rparr>)"
    by (simp add: manageResources_low)
  then show "activeSSIDs (drain_ssid_queue now ((manageResources freeHeap s)\<lparr>ssidQueue := q\<rparr>))
        = activeSSIDs s"
    by (simp add: drain_low)
next
  assume "freeHeap < 15000"
  then show "activeSwarm (manageResources freeHeap s)
        = drop (length (activeSwarm s) * 3 div 20) (activeSwarm s)"
    by (rule manageResources_critical)
next
  assume "15000 \<le> freeHeap"
  then show "activeSwarm (manageResources freeHeap s) = activeSwarm s"
    by (rule manageResources_not_critical)
next
  assume a: "25000 \<le> freeHeap"
  then show "\<not> lowMemoryMode (manageResources freeHeap s)" by (rule manageResources_clear)
  from a show "dormantSwarm (manageResources freeHeap s) = dormantSwarm s"
    by (rule manageResources_clear)
next
  assume "\<not> lowMemoryMode s \<and> takeWhile (\<lambda>b. b \<noteq> 0) slot \<notin> set (activeSSIDs s)
        \<and> length (activeSSIDs s) < 205"
  then show "activeSSIDs (learn_ssid now slot s) = activeSSIDs s @ [takeWhile (\<lambda>b. b \<noteq> 0) slot]"
    by (simp add: learn_ssid_new)
qed


theorem governor_tick_witness:
  "((14000::nat) < 25000
      \<and> lowMemoryMode (manageResources 14000 sys_pools)
      \<and> dormantSwarm (manageResources 14000 sys_pools)
          = drop (length (dormantSwarm sys_pools) * 3 div 10) (dormantSwarm sys_pools)
      \<and> (14000::nat) < 15000
      \<and> activeSwarm (manageResources 14000 sys_pools)
          = drop (length (activeSwarm sys_pools) * 3 div 20) (activeSwarm sys_pools)
      \<and> activeSSIDs (drain_ssid_queue 5000 ((manageResources 14000 sys_pools)\<lparr>ssidQueue := [ssid_ab]\<rparr>))
          = activeSSIDs sys_pools)
   \<and> ((15000::nat) \<le> 20000
      \<and> activeSwarm (manageResources 20000 sys_pools) = activeSwarm sys_pools)
   \<and> ((25000::nat) \<le> 30000
      \<and> \<not> lowMemoryMode (manageResources 30000 sys_pools)
      \<and> dormantSwarm (manageResources 30000 sys_pools) = dormantSwarm sys_pools)
   \<and> (\<not> lowMemoryMode sys0 \<and> takeWhile (\<lambda>b. b \<noteq> 0) ssid_ab \<notin> set (activeSSIDs sys0)
      \<and> length (activeSSIDs sys0) < 205
      \<and> activeSSIDs (learn_ssid 5000 ssid_ab sys0)
          = activeSSIDs sys0 @ [takeWhile (\<lambda>b. b \<noteq> 0) ssid_ab])"
proof -
  have p1: "(14000::nat) < 25000" "(14000::nat) < 15000" by simp_all
  have p2: "(15000::nat) \<le> 20000" by simp
  have p3: "(25000::nat) \<le> 30000" by simp
  have p4: "\<not> lowMemoryMode sys0 \<and> takeWhile (\<lambda>b. b \<noteq> 0) ssid_ab \<notin> set (activeSSIDs sys0)
      \<and> length (activeSSIDs sys0) < 205"
    by (simp add: sys0_def ssid_ab_def ssid_Home_def)
  note t1 = governor_tick[where freeHeap = 14000 and s = sys_pools and now = 5000
      and q = "[ssid_ab]"]
  note t2 = governor_tick[where freeHeap = 20000 and s = sys_pools]
  note t3 = governor_tick[where freeHeap = 30000 and s = sys_pools]
  note t4 = governor_tick[where s = sys0 and slot = ssid_ab and now = 5000]
  from t1 p1 have w1: "(14000::nat) < 25000
      \<and> lowMemoryMode (manageResources 14000 sys_pools)
      \<and> dormantSwarm (manageResources 14000 sys_pools)
          = drop (length (dormantSwarm sys_pools) * 3 div 10) (dormantSwarm sys_pools)
      \<and> (14000::nat) < 15000
      \<and> activeSwarm (manageResources 14000 sys_pools)
          = drop (length (activeSwarm sys_pools) * 3 div 20) (activeSwarm sys_pools)
      \<and> activeSSIDs (drain_ssid_queue 5000 ((manageResources 14000 sys_pools)\<lparr>ssidQueue := [ssid_ab]\<rparr>))
          = activeSSIDs sys_pools"
    by blast
  from t2 p2 have w2: "(15000::nat) \<le> 20000
      \<and> activeSwarm (manageResources 20000 sys_pools) = activeSwarm sys_pools"
    by blast
  from t3 p3 have w3: "(25000::nat) \<le> 30000
      \<and> \<not> lowMemoryMode (manageResources 30000 sys_pools)
      \<and> dormantSwarm (manageResources 30000 sys_pools) = dormantSwarm sys_pools"
    by blast
  from t4 p4 have w4: "\<not> lowMemoryMode sys0 \<and> takeWhile (\<lambda>b. b \<noteq> 0) ssid_ab \<notin> set (activeSSIDs sys0)
      \<and> length (activeSSIDs sys0) < 205
      \<and> activeSSIDs (learn_ssid 5000 ssid_ab sys0)
          = activeSSIDs sys0 @ [takeWhile (\<lambda>b. b \<noteq> 0) ssid_ab]"
    by blast
  show ?thesis by (rule conjI[OF w1 conjI[OF w2 conjI[OF w3 w4]]])
qed

text \<open>
  The claim as first stated has SSIDs still accepted while free heap is in
  [15000, 25000). After a tick that saw 20000 the flag is set, and a name the store
  does not hold, waiting in the queue, is drained without being stored; after a tick
  that saw 30000 the same name is stored.
\<close>

theorem governor_tick_counterexample:
  "(15000::nat) \<le> 20000 \<and> (20000::nat) < 25000
   \<and> ssid_ab \<notin> set (activeSSIDs sys0)
   \<and> activeSSIDs (drain_ssid_queue 5000 ((manageResources 20000 sys0)\<lparr>ssidQueue := [ssid_ab]\<rparr>))
       = activeSSIDs sys0
   \<and> activeSSIDs (drain_ssid_queue 5000 ((manageResources 30000 sys0)\<lparr>ssidQueue := [ssid_ab]\<rparr>))
       = activeSSIDs sys0 @ [ssid_ab]"
  by (simp add: drain_ssid_queue_def learn_ssid_def manageResources_def sys0_def Let_def
        ssid_ab_def ssid_Home_def MAX_SSIDS_TO_LEARN_def CYCLE_CAP_BUFFER_def)

section \<open>The second Sequence Control byte\<close>

lemma hi_nibble_zero:
  fixes sq :: "16 word"
  assumes "sq < 4096"
  shows "drop_bit 8 sq AND 0xF0 = 0"
proof -
  have "unat sq < 2 ^ 12" using assms by (simp add: word_less_nat_alt)
  then have "take_bit 12 (unat sq) = unat sq" by (simp add: take_bit_nat_eq_self)
  then have e: "take_bit 12 sq = sq"
    by (metis unsigned_take_bit_eq word_unat_eq_iff)
  have f: "(0xF0 :: 16 word) = push_bit 4 15" by simp
  have "drop_bit 8 (take_bit 12 sq) AND push_bit 4 m = 0" for m :: "16 word"
    by (rule bit_word_eqI) (simp add: bit_and_iff bit_drop_bit_eq bit_take_bit_iff bit_push_bit_iff)
  from this[of 15] show ?thesis by (simp only: e f)
qed

lemma seq_ctl_hi: "sq < 4096 \<Longrightarrow> seq_ctl sq ! 1 = 0"
  by (simp add: seq_ctl_def hi_nibble_zero)

lemma of_nat_lt_4096: "n < 4096 \<Longrightarrow> (of_nat n :: 16 word) < 4096"
  by (simp add: word_less_nat_alt unat_of_nat take_bit_nat_eq_self)

lemma seq_plus_lt: "seq_plus sq i < 4096"
  unfolding seq_plus_def by (rule of_nat_lt_4096) simp

lemma random_4096_lt: "(of_nat (fst (random 4096 g)) :: 16 word) < 4096"
  by (rule of_nat_lt_4096) (simp add: random_less)

lemma header_23:
  "length a = 4 \<Longrightarrow> length b = 6 \<Longrightarrow> length c = 6 \<Longrightarrow> length d = 6 \<Longrightarrow>
   (a @ b @ c @ d @ seq_ctl sq @ rest) ! 23 = seq_ctl sq ! 1"
  by (simp add: nth_append)

lemma probe_23: "fst (buildProbePacket is5 ssids vd channel g) ! 23 = seq_ctl (sequenceNumber vd) ! 1"
proof -
  obtain ssid where
    b: "fst (buildProbePacket is5 ssids vd channel g) =
       probe_header vd @ ies_of (probe_ies_spec vd ssid (probe_rates is5 (generation vd)) channel)"
    using buildProbePacket_shape[of ssids is5 vd channel g] by (elim exE conjE)
  have "(probe_header vd @ ies_of (probe_ies_spec vd ssid (probe_rates is5 (generation vd)) channel)) ! 23
      = probe_header vd ! 23"
    by (simp add: nth_append)
  also have "\<dots> = seq_ctl (sequenceNumber vd) ! 1"
    unfolding probe_header_def using header_23[of "[0x40, 0x00, 0x00, 0x00]" bcast "mac_bytes (mac vd)" bcast "sequenceNumber vd" "[]"]
    by simp
  finally show ?thesis by (simp only: b)
qed

lemma auth_23: "buildAuthPacket vd ! 23 = seq_ctl (sequenceNumber vd) ! 1"
  unfolding buildAuthPacket_def
  using header_23[of "[0xB0, 0x00, 0x00, 0x01]" "mac_bytes (bssid_target vd)" "mac_bytes (mac vd)"
      "mac_bytes (bssid_target vd)" "sequenceNumber vd" "[0x00, 0x00] @ [0x01, 0x00] @ [0x00, 0x00]"]
  by simp

lemma assoc_23: "buildAssocRequestPacket is5 vd ssid ! 23 = seq_ctl (sequenceNumber vd) ! 1"
proof -
  have "(assoc_header vd @ ies_of (assoc_ies_spec vd ssid (probe_rates is5 (generation vd)))) ! 23
      = assoc_header vd ! 23"
    by (simp add: nth_append)
  also have "\<dots> = seq_ctl (sequenceNumber vd) ! 1"
    unfolding assoc_header_def
    using header_23[of "[0x00, 0x00, 0x00, 0x00]" "mac_bytes (bssid_target vd)" "mac_bytes (mac vd)"
      "mac_bytes (bssid_target vd)" "sequenceNumber vd" "[0x31, 0x04] @ [0x0A, 0x00]"]
    by simp
  finally show ?thesis by (simp only: buildAssocRequestPacket_shape)
qed

lemma data_23: "fst (buildEncryptedDataPacket vd g) ! 23 = seq_ctl (sequenceNumber vd) ! 1"
proof -
  have "\<exists>rest. fst (buildEncryptedDataPacket vd g) =
      [0x88, 0x41, 0x00, 0x00] @ mac_bytes (bssid_target vd) @ mac_bytes (mac vd)
        @ mac_bytes (bssid_target vd) @ seq_ctl (sequenceNumber vd) @ rest"
    by (simp add: buildEncryptedDataPacket_def split_def Let_def)
  then obtain rest where "fst (buildEncryptedDataPacket vd g) =
      [0x88, 0x41, 0x00, 0x00] @ mac_bytes (bssid_target vd) @ mac_bytes (mac vd)
        @ mac_bytes (bssid_target vd) @ seq_ctl (sequenceNumber vd) @ rest" ..
  then show ?thesis
    using header_23[of "[0x88, 0x41, 0x00, 0x00]" "mac_bytes (bssid_target vd)" "mac_bytes (mac vd)"
      "mac_bytes (bssid_target vd)" "sequenceNumber vd" rest]
    by simp
qed

lemma beacon_23: "buildBeaconPacket is5 m ssid channel sq ! 23 = seq_ctl sq ! 1"
proof -
  have "\<exists>rest. buildBeaconPacket is5 m ssid channel sq =
      [0x80, 0x00, 0x00, 0x00] @ bcast @ mac_bytes m @ mac_bytes m @ seq_ctl sq @ rest"
    by (simp add: buildBeaconPacket_def Let_def addTag_def)
  then obtain rest where "buildBeaconPacket is5 m ssid channel sq =
      [0x80, 0x00, 0x00, 0x00] @ bcast @ mac_bytes m @ mac_bytes m @ seq_ctl sq @ rest" ..
  then show ?thesis
    using header_23[of "[0x80, 0x00, 0x00, 0x00]" bcast "mac_bytes m" "mac_bytes m" sq rest]
    by simp
qed

lemma noise_packet_23: "fst (noise_packet is5 g) ! 23 = 0"
  by (simp add: noise_packet_def split_def Let_def addTag_def nth_append seq_ctl_def bcast_def
        hi_nibble_zero[OF random_4096_lt])


section \<open>Effects of the noise filler\<close>

lemma device_tx_append: "device_tx (xs @ ys) = device_tx xs @ device_tx ys"
  by (induction xs rule: device_tx.induct) simp_all

lemma device_tx_noise: "list_all noise_event new \<Longrightarrow> device_tx new = []"
  by (induction new rule: device_tx.induct) simp_all

lemma noise_event_ev_ok: "noise_event e \<Longrightarrow> ev_ok q b e"
  by (cases "(q, b, e)" rule: ev_ok.cases) simp_all

lemma noise_step_refl: "noise_step s s"
  unfolding noise_step_def
  by (rule exI[of _ "rnd s"], rule exI[of _ "clock s"], rule exI[of _ "[]"],
      rule exI[of _ "totalPacketCount s"], rule exI[of _ "junkPacketCount s"]) simp

lemma noise_step_trans:
  assumes "noise_step s s'" "noise_step s' s''"
  shows "noise_step s s''"
proof -
  from assms(1) obtain g c new t j where
    a: "s' = s\<lparr>rnd := g, clock := c, radio := radio s @ new,
                totalPacketCount := t, junkPacketCount := j\<rparr>" and a': "list_all noise_event new"
    unfolding noise_step_def by (elim exE conjE)
  from assms(2) obtain g2 c2 new2 t2 j2 where
    b: "s'' = s'\<lparr>rnd := g2, clock := c2, radio := radio s' @ new2,
                totalPacketCount := t2, junkPacketCount := j2\<rparr>" and b': "list_all noise_event new2"
    unfolding noise_step_def by (elim exE conjE)
  have "s'' = s\<lparr>rnd := g2, clock := c2, radio := radio s @ (new @ new2),
                totalPacketCount := t2, junkPacketCount := j2\<rparr>"
    by (simp add: a b)
  moreover have "list_all noise_event (new @ new2)" using a' b' by simp
  ultimately show ?thesis unfolding noise_step_def by (intro exI conjI)
qed

lemma noise_step_clock: "noise_step s (s\<lparr>clock := c\<rparr>)"
  unfolding noise_step_def
  by (rule exI[of _ "rnd s"], rule exI[of _ c], rule exI[of _ "[]"],
      rule exI[of _ "totalPacketCount s"], rule exI[of _ "junkPacketCount s"]) simp

lemma noise_step_iter: "noise_step s (noise_iter s)"
  unfolding noise_step_def noise_iter_def split_def Let_def
  by (rule exI[of _ "snd (noise_packet (is5GHzBand s) (rnd s))"], rule exI[of _ "clock s"],
      rule exI[of _ "[Tx FromNoise (fst (noise_packet (is5GHzBand s) (rnd s)))]"],
      rule exI[of _ "totalPacketCount s + 1"], rule exI[of _ "junkPacketCount s + 1"])
     (simp add: noise_packet_23)

lemma noise_step_power: "noise_step s (s\<lparr>rnd := g, radio := radio s @ [SetMaxTxPower p]\<rparr>)"
  unfolding noise_step_def
  by (rule exI[of _ g], rule exI[of _ "clock s"], rule exI[of _ "[SetMaxTxPower p]"],
      rule exI[of _ "totalPacketCount s"], rule exI[of _ "junkPacketCount s"]) simp

lemma noise_step_rnd: "noise_step s (s\<lparr>rnd := g\<rparr>)"
  unfolding noise_step_def
  by (rule exI[of _ g], rule exI[of _ "clock s"], rule exI[of _ "[]"],
      rule exI[of _ "totalPacketCount s"], rule exI[of _ "junkPacketCount s"]) simp

lemma noise_loop_step: "noise_loop start d ts s = Some s' \<Longrightarrow> noise_step s s'"
proof (induction ts arbitrary: s)
  case Nil
  then show ?case by simp
next
  case (Cons t ts)
  show ?case
  proof (cases "t - start < d")
    case True
    with Cons.prems have "noise_loop start d ts (noise_iter s) = Some s'" by simp
    then have "noise_step (noise_iter s) s'" by (rule Cons.IH)
    with noise_step_iter show ?thesis by (rule noise_step_trans)
  next
    case False
    with Cons.prems have "s' = s\<lparr>clock := ts\<rparr>" by simp
    then show ?thesis by (simp add: noise_step_clock)
  qed
qed

lemma fillSilenceWithNoise_step:
  assumes "fillSilenceWithNoise d s = Some s'"
  shows "noise_step s s'"
proof (cases "clock s")
  case Nil
  with assms show ?thesis by (simp add: fillSilenceWithNoise_def)
next
  case (Cons start ts)
  with assms have "noise_loop start d ts
      (s\<lparr>rnd := snd (random2 0 6 (rnd s)),
         radio := radio s @ [SetMaxTxPower (68 + int (fst (random2 0 6 (rnd s))))]\<rparr>) = Some s'"
    by (simp add: fillSilenceWithNoise_def split_def Let_def)
  then have "noise_step (s\<lparr>rnd := snd (random2 0 6 (rnd s)),
         radio := radio s @ [SetMaxTxPower (68 + int (fst (random2 0 6 (rnd s))))]\<rparr>) s'"
    by (rule noise_loop_step)
  with noise_step_power show ?thesis by (rule noise_step_trans)
qed

lemma noise_gap_step:
  assumes "noise_gap a b s = Some s'"
  shows "noise_step s s'"
proof -
  from assms have "fillSilenceWithNoise (of_nat (fst (random2 a b (rnd s))))
      (s\<lparr>rnd := snd (random2 a b (rnd s))\<rparr>) = Some s'"
    by (simp add: noise_gap_def split_def Let_def)
  then have "noise_step (s\<lparr>rnd := snd (random2 a b (rnd s))\<rparr>) s'"
    by (rule fillSilenceWithNoise_step)
  with noise_step_rnd show ?thesis by (rule noise_step_trans)
qed

lemma noise_step_fields:
  assumes "noise_step s s'"
  shows "activeSwarm s' = activeSwarm s" "dormantSwarm s' = dormantSwarm s"
    "activeSSIDs s' = activeSSIDs s" "is5GHzBand s' = is5GHzBand s"
    "currentChannel s' = currentChannel s" "interactionCount s' = interactionCount s"
    "isMeshDetected s' = isMeshDetected s" "meshCache s' = meshCache s"
    "meshQueue s' = meshQueue s" "lowMemoryMode s' = lowMemoryMode s"
    "device_tx (radio s') = device_tx (radio s)"
    "grows (ev_ok q b) s s'"
    "local_mac_addr s' = local_mac_addr s"
proof -
  from assms obtain g c new t j where
    a: "s' = s\<lparr>rnd := g, clock := c, radio := radio s @ new,
                totalPacketCount := t, junkPacketCount := j\<rparr>" and a': "list_all noise_event new"
    unfolding noise_step_def by (elim exE conjE)
  from a show "activeSwarm s' = activeSwarm s" "dormantSwarm s' = dormantSwarm s"
    "activeSSIDs s' = activeSSIDs s" "is5GHzBand s' = is5GHzBand s"
    "currentChannel s' = currentChannel s" "interactionCount s' = interactionCount s"
    "isMeshDetected s' = isMeshDetected s" "meshCache s' = meshCache s"
    "meshQueue s' = meshQueue s" "lowMemoryMode s' = lowMemoryMode s"
    by simp_all
  from a a' show "device_tx (radio s') = device_tx (radio s)"
    by (simp add: device_tx_append device_tx_noise)
  from a' have "list_all (ev_ok q b) new"
    by (induction new) (simp_all add: noise_event_ev_ok)
  with a show "grows (ev_ok q b) s s'" unfolding grows_def by auto
  from a show "local_mac_addr s' = local_mac_addr s" by simp
qed

section \<open>Invariants of a channel hop\<close>

lemma grows_refl: "grows P s s"
  by (simp add: grows_def)

lemma grows_trans: "grows P s s' \<Longrightarrow> grows P s' s'' \<Longrightarrow> grows P s s''"
  unfolding grows_def by (elim exE conjE, rule_tac x = "new @ newa" in exI) simp

lemma growsI: "radio s' = radio s @ new \<Longrightarrow> list_all P new \<Longrightarrow> grows P s s'"
  unfolding grows_def by (intro exI conjI)

lemma list_all_update: "list_all P xs \<Longrightarrow> P x \<Longrightarrow> list_all P (xs[i := x])"
  by (induction xs arbitrary: i) (auto split: nat.splits)

lemma list_all_nth: "list_all P xs \<Longrightarrow> i < length xs \<Longrightarrow> P (xs ! i)"
  by (simp add: list_all_length)

lemma seq_ok_bump: "seq_ok (bump_seq k vd)"
  unfolding seq_ok_def bump_seq_def by (simp add: of_nat_lt_4096)

lemma generation_bump [simp]: "generation (bump_seq k vd) = generation vd"
  by (simp add: bump_seq_def)

lemma seq_ok_23:
  assumes "seq_ok vd"
  shows "buildAuthPacket vd ! 23 = 0" "buildAssocRequestPacket is5 vd ssid ! 23 = 0"
    "fst (buildEncryptedDataPacket vd g) ! 23 = 0"
    "fst (buildProbePacket is5 ssids vd channel g) ! 23 = 0"
  using assms seq_ctl_hi[of "sequenceNumber vd"]
  by (simp_all add: seq_ok_def auth_23 assoc_23 data_23 probe_23)

lemma slot_inv_noise:
  assumes "noise_step s s'" "slot_inv i q b M s"
  shows "slot_inv i q b M s'"
  using assms(2) noise_step_fields(1,2,4,7,8,9,13)[OF assms(1)]
  by (simp add: slot_inv_def mesh_view_def seq_inv_def)

lemma hop_inv_noise:
  assumes "noise_step s s'" "hop_inv q b M s"
  shows "hop_inv q b M s'"
  using assms(2) noise_step_fields(1,2,4,7,8,9,13)[OF assms(1)]
  by (simp add: hop_inv_def mesh_view_def seq_inv_def)

lemma slot_inv_dev:
  assumes "slot_inv i q b M s"
  shows "q \<longrightarrow> seq_ok (activeSwarm s ! i)" "b \<longrightarrow> generation (activeSwarm s ! i) \<noteq> GEN_LEGACY"
  using assms by (simp_all add: slot_inv_def mesh_view_def seq_inv_def list_all_nth)

lemma tx_auth_inv:
  assumes "slot_inv i q b M s"
  shows "slot_inv i q b M (tx_auth i s)" "grows (ev_ok q b) s (tx_auth i s)"
proof -
  note d = slot_inv_dev[OF assms]
  from assms d show "slot_inv i q b M (tx_auth i s)"
    by (simp add: slot_inv_def mesh_view_def seq_inv_def tx_auth_def Let_def list_all_update seq_ok_bump)
  have "radio (tx_auth i s) = radio s @ [Tx (FromDevice (activeSwarm s ! i)) (buildAuthPacket (activeSwarm s ! i))]"
    by (simp add: tx_auth_def Let_def)
  then show "grows (ev_ok q b) s (tx_auth i s)"
    by (rule growsI) (use d in \<open>simp add: seq_ok_23\<close>)
qed

lemma tx_assoc_inv:
  assumes "slot_inv i q b M s"
  shows "slot_inv i q b M (tx_assoc i ssid s)" "grows (ev_ok q b) s (tx_assoc i ssid s)"
proof -
  note d = slot_inv_dev[OF assms]
  from assms d show "slot_inv i q b M (tx_assoc i ssid s)"
    by (simp add: slot_inv_def mesh_view_def seq_inv_def tx_assoc_def Let_def list_all_update seq_ok_bump)
  have "radio (tx_assoc i ssid s) = radio s @ [Tx (FromDevice (activeSwarm s ! i))
      (buildAssocRequestPacket (is5GHzBand s) (activeSwarm s ! i) ssid)]"
    by (simp add: tx_assoc_def Let_def)
  then show "grows (ev_ok q b) s (tx_assoc i ssid s)"
    by (rule growsI) (use d in \<open>simp add: seq_ok_23\<close>)
qed

lemma count_band_mesh [simp]: "mesh_view (count_band s) = mesh_view s"
  by (simp add: count_band_def mesh_view_def)

lemma count_band_fields [simp]:
  "activeSwarm (count_band s) = activeSwarm s" "dormantSwarm (count_band s) = dormantSwarm s"
  "is5GHzBand (count_band s) = is5GHzBand s" "radio (count_band s) = radio s"
  "rnd (count_band s) = rnd s" "activeSSIDs (count_band s) = activeSSIDs s"
  "interactionCount (count_band s) = interactionCount s"
  "currentChannel (count_band s) = currentChannel s"
  "clock (count_band s) = clock s" "isMeshDetected (count_band s) = isMeshDetected s"
  "meshCache (count_band s) = meshCache s" "meshQueue (count_band s) = meshQueue s"
  "local_mac_addr (count_band s) = local_mac_addr s"
  by (simp_all add: count_band_def)

lemma tx_data_inv:
  assumes "slot_inv i q b M s"
  shows "slot_inv i q b M (tx_data i s)" "grows (ev_ok q b) s (tx_data i s)"
proof -
  note d = slot_inv_dev[OF assms]
  from assms d show "slot_inv i q b M (tx_data i s)"
    by (simp add: slot_inv_def mesh_view_def seq_inv_def tx_data_def Let_def split_def list_all_update seq_ok_bump)
  have "radio (tx_data i s) = radio s @ [Tx (FromDevice (activeSwarm s ! i))
      (fst (buildEncryptedDataPacket (activeSwarm s ! i) (rnd s)))]"
    by (simp add: tx_data_def Let_def split_def)
  then show "grows (ev_ok q b) s (tx_data i s)"
    by (rule growsI) (use d in \<open>simp add: seq_ok_23\<close>)
qed

lemma probe_tx_inv:
  assumes "slot_inv i q b M s"
  shows "slot_inv i q b M (probe_tx i s)" "grows (ev_ok q b) s (probe_tx i s)"
proof -
  note d = slot_inv_dev[OF assms]
  from assms d show "slot_inv i q b M (probe_tx i s)"
    by (simp add: slot_inv_def mesh_view_def seq_inv_def probe_tx_def Let_def split_def list_all_update seq_ok_bump)
  have "radio (probe_tx i s) = radio s @ [Tx (FromDevice (activeSwarm s ! i))
      (fst (buildProbePacket (is5GHzBand s) (activeSSIDs s) (activeSwarm s ! i) (currentChannel s) (rnd s)))]"
    by (simp add: probe_tx_def Let_def split_def)
  then show "grows (ev_ok q b) s (probe_tx i s)"
    by (rule growsI) (use d in \<open>simp add: seq_ok_23\<close>)
qed

lemma noise_gap_inv:
  assumes "noise_gap lo hi s = Some s'" "slot_inv i q b M s"
  shows "slot_inv i q b M s'" "grows (ev_ok q b) s s'"
  using slot_inv_noise[OF noise_gap_step[OF assms(1)] assms(2)]
    noise_step_fields(12)[OF noise_gap_step[OF assms(1)]]
  by simp_all

lemma data_burst_inv:
  "data_burst n i s = Some s' \<Longrightarrow> slot_inv i q b M s \<Longrightarrow> slot_inv i q b M s' \<and> grows (ev_ok q b) s s'"
proof (induction n arbitrary: s)
  case 0
  then show ?case by (simp add: grows_refl)
next
  case (Suc n)
  from Suc.prems(1) obtain s1 where
    a: "noise_gap 3 10 (tx_data i s) = Some s1" and b: "data_burst n i s1 = Some s'"
    by (auto simp: bind_eq_Some_conv)
  note t = tx_data_inv[OF Suc.prems(2)]
  note g = noise_gap_inv[OF a t(1)]
  from Suc.IH[OF b g(1)] have r: "slot_inv i q b M s'" "grows (ev_ok q b) s1 s'" by simp_all
  from grows_trans[OF grows_trans[OF t(2) g(2)] r(2)] r(1) show ?case by simp
qed

lemma interaction_sim_inv:
  assumes "interaction_sim i s = Some s'" "slot_inv i q b M s"
  shows "slot_inv i q b M s'" "grows (ev_ok q b) s s'"
proof -
  define s1 where "s1 = s\<lparr>activeSwarm := (activeSwarm s)[i := (activeSwarm s ! i)\<lparr>hasConnected := True\<rparr>]\<rparr>"
  define ssid where "ssid = activeSSIDs s ! nat (preferredSSIDIndex (activeSwarm s ! i) mod 2 ^ 32)"
  from assms(1) obtain s2 s3 s4 where
    a: "noise_gap 7 20 (tx_auth i s1) = Some s2"
    and b: "noise_gap 22 50 (tx_assoc i ssid s2) = Some s3"
    and c: "data_burst (fst (random2 3 12 (rnd s3))) i (s3\<lparr>rnd := snd (random2 3 12 (rnd s3))\<rparr>) = Some s4"
    and d: "s' = s4\<lparr>interactionCount := interactionCount s4 + 1\<rparr>"
    unfolding interaction_sim_def s1_def ssid_def
    by (auto simp: bind_eq_Some_conv Let_def split_def)
  have i1: "slot_inv i q b M s1"
    using assms(2) slot_inv_dev[OF assms(2)]
    by (simp add: slot_inv_def mesh_view_def seq_inv_def s1_def list_all_update seq_ok_def)
  have g1: "grows (ev_ok q b) s s1" by (simp add: grows_def s1_def)
  note t1 = tx_auth_inv[OF i1]
  note n1 = noise_gap_inv[OF a t1(1)]
  note t2 = tx_assoc_inv[OF n1(1), of ssid]
  note n2 = noise_gap_inv[OF b t2(1)]
  have i3: "slot_inv i q b M (s3\<lparr>rnd := snd (random2 3 12 (rnd s3))\<rparr>)"
    using n2(1) by (simp add: slot_inv_def mesh_view_def seq_inv_def)
  have g3: "grows (ev_ok q b) s3 (s3\<lparr>rnd := snd (random2 3 12 (rnd s3))\<rparr>)"
    by (simp add: grows_def)
  from data_burst_inv[OF c i3] have r: "slot_inv i q b M s4"
    "grows (ev_ok q b) (s3\<lparr>rnd := snd (random2 3 12 (rnd s3))\<rparr>) s4" by simp_all
  from r(1) d show "slot_inv i q b M s'" by (simp add: slot_inv_def mesh_view_def seq_inv_def)
  have g4: "grows (ev_ok q b) s4 s'" using d by (simp add: grows_def)
  from g1 t1(2) n1(2) t2(2) n2(2) g3 r(2) g4 show "grows (ev_ok q b) s s'"
    by (blast intro: grows_trans)
qed


lemma mesh_relay_slot_inv:
  assumes "hop_inv q b M s"
  shows "hop_inv q b M (mesh_relay_slot s)" "grows (ev_ok q b) s (mesh_relay_slot s)"
    "activeSwarm (mesh_relay_slot s) = activeSwarm s"
  using assms
  by (auto simp: mesh_relay_slot_def hop_inv_def mesh_view_def seq_inv_def grows_def Let_def split_def)

lemma beacon_slot_inv:
  assumes "hop_inv q b M s"
  shows "hop_inv q b M (beacon_slot s)" "grows (ev_ok q b) s (beacon_slot s)"
proof -
  from assms show "hop_inv q b M (beacon_slot s)"
    by (auto simp: beacon_slot_def hop_inv_def mesh_view_def seq_inv_def Let_def split_def)
  have z: "buildBeaconPacket is5 m ssid ch (of_nat (fst (random 4096 g))) ! 23 = 0" for is5 m ssid ch g
    using seq_ctl_hi[OF random_4096_lt[of g]] by (simp add: beacon_23)
  show "grows (ev_ok q b) s (beacon_slot s)"
    by (auto simp: beacon_slot_def grows_def Let_def split_def z)
qed

lemma slot_tail_inv:
  assumes "slot_tail s = Some s'" "hop_inv q b M s"
  shows "hop_inv q b M s'" "grows (ev_ok q b) s s'"
proof -
  from assms(1) have a: "noise_gap 1 5 (beacon_slot s) = Some s'" by (simp add: slot_tail_def)
  note bi = beacon_slot_inv[OF assms(2)]
  from hop_inv_noise[OF noise_gap_step[OF a] bi(1)] show "hop_inv q b M s'" .
  from grows_trans[OF bi(2) noise_step_fields(12)[OF noise_gap_step[OF a]]]
  show "grows (ev_ok q b) s s'" .
qed

lemma slot_inv_hop: "slot_inv i q b M s \<Longrightarrow> hop_inv q b M s"
  by (simp add: slot_inv_def hop_inv_def)

lemma packet_slot_inv:
  assumes "packet_slot s = Some s'" "hop_inv q b M s"
  shows "hop_inv q b M s'" "grows (ev_ok q b) s s'"
proof -
  define s1 where "s1 = mesh_relay_slot s"
  note m = mesh_relay_slot_inv[OF assms(2), folded s1_def]
  have "hop_inv q b M s' \<and> grows (ev_ok q b) s1 s'"
  proof (cases "activeSwarm s1 = []")
    case True
    with assms(1) have "slot_tail s1 = Some s'"
      by (simp add: packet_slot_def s1_def Let_def)
    from slot_tail_inv[OF this m(1)] show ?thesis by simp
  next
    case False
    define i where "i = fst (random (length (activeSwarm s1)) (rnd s1))"
    define vd where "vd = activeSwarm s1 ! i"
    define s2 where "s2 = s1\<lparr>rnd := snd (random (length (activeSwarm s1)) (rnd s1)),
                               radio := radio s1 @ [SetMaxTxPower (txPower vd)]\<rparr>"
    have il: "i < length (activeSwarm s1)"
      unfolding i_def using False by (intro random_less) simp
    have h2: "hop_inv q b M s2" using m(1) by (simp add: hop_inv_def mesh_view_def seq_inv_def s2_def)
    have g2: "grows (ev_ok q b) s1 s2" by (simp add: grows_def s2_def)
    show ?thesis
    proof (cases "is5GHzBand s2 \<and> generation vd = GEN_LEGACY")
      case True
      with assms(1) False have "s' = s2"
        by (simp add: packet_slot_def s1_def[symmetric] Let_def split_def s2_def vd_def i_def)
      with h2 g2 show ?thesis by simp
    next
      case nl: False
      define s3 where "s3 = s2\<lparr>rnd := snd (random 100 (rnd s2))\<rparr>"
      have i3: "slot_inv i q b M s3"
        using h2 il nl by (auto simp: slot_inv_def mesh_view_def hop_inv_def mesh_view_def seq_inv_def s3_def s2_def vd_def)
      have g3: "grows (ev_ok q b) s2 s3" by (simp add: grows_def s3_def)
      from assms(1) False nl obtain sm where
        mid: "interaction_sim i s3 = Some sm \<or> sm = probe_tx i s3"
        and tl: "slot_tail sm = Some s'"
        unfolding packet_slot_def s1_def[symmetric] Let_def split_def
        by (auto simp: bind_eq_Some_conv s3_def s2_def vd_def i_def split: if_splits)
      have "slot_inv i q b M sm \<and> grows (ev_ok q b) s3 sm"
        using mid interaction_sim_inv[OF _ i3] probe_tx_inv[OF i3] by blast
      then have hm: "hop_inv q b M sm" and gm: "grows (ev_ok q b) s3 sm"
        by (auto intro: slot_inv_hop)
      note t = slot_tail_inv[OF tl hm]
      from g2 g3 gm t show ?thesis by (blast intro: grows_trans)
    qed
  qed
  with m(2) show "hop_inv q b M s'" "grows (ev_ok q b) s s'"
    by (auto intro: grows_trans)
qed

lemma packet_slots_inv:
  "packet_slots n s = Some s' \<Longrightarrow> hop_inv q b M s \<Longrightarrow> hop_inv q b M s' \<and> grows (ev_ok q b) s s'"
proof (induction n arbitrary: s)
  case 0
  then show ?case by (simp add: grows_refl)
next
  case (Suc n)
  from Suc.prems(1) obtain s1 where a: "packet_slot s = Some s1" and b: "packet_slots n s1 = Some s'"
    by (auto simp: bind_eq_Some_conv)
  note p = packet_slot_inv[OF a Suc.prems(2)]
  from Suc.IH[OF b p(1)] p(2) show ?case by (blast intro: grows_trans)
qed

lemma device_tx_ev_ok:
  "list_all (ev_ok q b) new \<Longrightarrow> (vd, f) \<in> set (device_tx new) \<Longrightarrow>
     (q \<longrightarrow> f ! 23 = 0) \<and> (b \<longrightarrow> generation vd \<noteq> GEN_LEGACY)"
  by (induction new rule: device_tx.induct) auto

lemma packet_slot_skip:
  assumes "is5GHzBand s" "activeSwarm s \<noteq> []"
    "generation (activeSwarm s ! fst (random (length (activeSwarm s)) (rnd s))) = GEN_LEGACY"
  shows "packet_slot s =
    Some (s\<lparr>rnd := snd (random (length (activeSwarm s)) (rnd s)),
            radio := radio s @ [SetMaxTxPower
              (txPower (activeSwarm s ! fst (random (length (activeSwarm s)) (rnd s))))]\<rparr>)"
proof -
  from assms(1) have "mesh_relay_slot s = s" by (simp add: mesh_relay_slot_def)
  with assms show ?thesis by (simp add: packet_slot_def Let_def split_def)
qed


lemma millis_Some:
  assumes "millis s = Some (t, s1)"
  shows "s1 = s\<lparr>clock := tl (clock s)\<rparr>" "clock s = t # clock s1"
  using assms by (auto simp: millis_def split: list.splits)

lemma channel_hop_inv:
  assumes "channel_hop c5 now s = Some s'" "q \<longrightarrow> seq_inv s"
  shows "hop_inv q (c5 \<and> nextHopIs5G s) (mesh_view s) s'"
    "grows (ev_ok q (c5 \<and> nextHopIs5G s)) s s'"
proof -
  from assms(1) obtain hopStart s0 where m0: "millis s = Some (hopStart, s0)"
    unfolding channel_hop_def by (auto simp: bind_eq_Some_conv)
  define s1 where "s1 = select_channel c5
      (s0\<lparr>lastChannelHop := now,
           nextChannelHopInterval := int (fst (random2 120 300 (rnd s0))),
           rnd := snd (random2 120 300 (rnd s0))\<rparr>)"
  define s2 where "s2 = s1\<lparr>radio := radio s1 @ [SetChannel (currentChannel s1)]\<rparr>"
  define n where "n = fst (random2 MIN_PACKETS_PER_HOP MAX_PACKETS_PER_HOP (rnd s2))"
  define s2' where "s2' = s2\<lparr>rnd := snd (random2 MIN_PACKETS_PER_HOP MAX_PACKETS_PER_HOP (rnd s2))\<rparr>"
  from assms(1) m0 obtain s3 t s4 where
    p: "packet_slots n s2' = Some s3" and m3: "millis s3 = Some (t, s4)"
    and e: "s' = s4\<lparr>ghostRadioTime := ghostRadioTime s4 + (t - hopStart),
                     activeTimeTotal := activeTimeTotal s4 + (t - hopStart)\<rparr>"
    unfolding channel_hop_def
    by (auto simp: bind_eq_Some_conv Let_def split_def s1_def s2_def s2'_def n_def)
  note z0 = millis_Some(1)[OF m0]
  have r2: "radio s2' = radio s @ [SetChannel (currentChannel s1)]"
    by (simp add: s2'_def s2_def s1_def select_channel_def z0)
  have h2: "hop_inv q (c5 \<and> nextHopIs5G s) (mesh_view s) s2'"
    using assms(2)
    by (auto simp: hop_inv_def mesh_view_def seq_inv_def s2'_def s2_def s1_def select_channel_def z0)
  from packet_slots_inv[OF p h2] have h3: "hop_inv q (c5 \<and> nextHopIs5G s) (mesh_view s) s3"
    and g3: "grows (ev_ok q (c5 \<and> nextHopIs5G s)) s2' s3" by simp_all
  note z3 = millis_Some(1)[OF m3]
  from h3 show "hop_inv q (c5 \<and> nextHopIs5G s) (mesh_view s) s'"
    by (simp add: hop_inv_def mesh_view_def seq_inv_def e z3)
  have g0: "grows (ev_ok q (c5 \<and> nextHopIs5G s)) s s2'"
    using r2 by (rule growsI) simp
  have g4: "grows (ev_ok q (c5 \<and> nextHopIs5G s)) s3 s'"
    by (simp add: grows_def e z3)
  from g0 g3 g4 show "grows (ev_ok q (c5 \<and> nextHopIs5G s)) s s'"
    by (blast intro: grows_trans)
qed

lemma grows_no_legacy:
  assumes "grows (ev_ok q True) s s'"
  shows "\<exists>new. radio s' = radio s @ new
           \<and> (\<forall>x \<in> set (device_tx new). generation (fst x) \<noteq> GEN_LEGACY)"
proof -
  from assms obtain new where a: "radio s' = radio s @ new" and b: "list_all (ev_ok q True) new"
    unfolding grows_def by (elim exE conjE)
  have "\<forall>x \<in> set (device_tx new). generation (fst x) \<noteq> GEN_LEGACY"
    using device_tx_ev_ok[OF b] by auto
  with a show ?thesis by (intro exI conjI)
qed

section \<open>No Legacy source on 5 GHz\<close>

text \<open>
  Claim C4. On a hop for which the 5 GHz band is selected no frame is transmitted for
  a Legacy device. When a packet slot on 5 GHz picks a Legacy device, the slot ends at
  once: the radio is told the device's transmit power and nothing is built or sent,
  neither for the device nor as beacon or noise. For any number of packet slots run
  on 5 GHz, and for a whole hop of dual-band hardware whose turn is 5 GHz, every
  device frame added to the radio log was built for a device that is not Legacy.
\<close>

theorem no_legacy_on_5ghz:
  "(is5GHzBand s \<and> activeSwarm s \<noteq> []
      \<and> generation (activeSwarm s ! fst (random (length (activeSwarm s)) (rnd s))) = GEN_LEGACY \<longrightarrow>
      packet_slot s =
        Some (s\<lparr>rnd := snd (random (length (activeSwarm s)) (rnd s)),
                radio := radio s @ [SetMaxTxPower
                  (txPower (activeSwarm s ! fst (random (length (activeSwarm s)) (rnd s))))]\<rparr>))
   \<and> (is5GHzBand s \<and> packet_slots n s = Some s' \<longrightarrow>
        (\<exists>new. radio s' = radio s @ new
           \<and> (\<forall>x \<in> set (device_tx new). generation (fst x) \<noteq> GEN_LEGACY)))
   \<and> (nextHopIs5G s \<and> channel_hop True now s = Some s'' \<longrightarrow>
        is5GHzBand s''
        \<and> (\<exists>new. radio s'' = radio s @ new
           \<and> (\<forall>x \<in> set (device_tx new). generation (fst x) \<noteq> GEN_LEGACY)))"
proof (intro conjI impI)
  assume "is5GHzBand s \<and> activeSwarm s \<noteq> []
      \<and> generation (activeSwarm s ! fst (random (length (activeSwarm s)) (rnd s))) = GEN_LEGACY"
  then show "packet_slot s =
        Some (s\<lparr>rnd := snd (random (length (activeSwarm s)) (rnd s)),
                radio := radio s @ [SetMaxTxPower
                  (txPower (activeSwarm s ! fst (random (length (activeSwarm s)) (rnd s))))]\<rparr>)"
    by (intro packet_slot_skip) simp_all
next
  assume a: "is5GHzBand s \<and> packet_slots n s = Some s'"
  then have h: "hop_inv False True (mesh_view s) s" and p: "packet_slots n s = Some s'"
    by (simp_all add: hop_inv_def)
  from packet_slots_inv[OF p h] have "grows (ev_ok False True) s s'" by (rule conjunct2)
  then show "\<exists>new. radio s' = radio s @ new
           \<and> (\<forall>x \<in> set (device_tx new). generation (fst x) \<noteq> GEN_LEGACY)"
    by (rule grows_no_legacy)
next
  assume a: "nextHopIs5G s \<and> channel_hop True now s = Some s''"
  then have c: "channel_hop True now s = Some s''" and n: "nextHopIs5G s" by simp_all
  have "False \<longrightarrow> seq_inv s" by simp
  note r = channel_hop_inv[OF c this]
  from r(1) n show "is5GHzBand s''" by (simp add: hop_inv_def)
  from r(2) n have "grows (ev_ok False True) s s''" by simp
  then show "\<exists>new. radio s'' = radio s @ new
           \<and> (\<forall>x \<in> set (device_tx new). generation (fst x) \<noteq> GEN_LEGACY)"
    by (rule grows_no_legacy)
qed

section \<open>Termination under an advancing clock\<close>

lemma elapsed_less:
  fixes t start dur :: millis_t
  assumes "unat start \<le> unat t"
  shows "t - start < dur \<longleftrightarrow> unat t - unat start < unat dur"
proof -
  from assms have "start \<le> t" by (simp add: word_le_nat_alt)
  then have "unat (t - start) = unat t - unat start" by (rule unat_sub)
  then show ?thesis by (simp add: word_less_nat_alt)
qed

lemma noise_loop_terminates:
  assumes "sorted_wrt (<) (map unat ts)" "\<forall>t \<in> set ts. L \<le> unat t" "unat start \<le> L"
    "unat start + unat dur < L + length ts" "ts \<noteq> []"
  shows "\<exists>s' k. noise_loop start dur ts s = Some s' \<and> clock s' = drop k ts
           \<and> k \<le> Suc (unat start + unat dur - L)"
  using assms
proof (induction ts arbitrary: L s)
  case Nil
  then show ?case by simp
next
  case (Cons t ts)
  from Cons.prems(2,3) have lt: "L \<le> unat t" and st: "unat start \<le> unat t" by simp_all
  show ?case
  proof (cases "t - start < dur")
    case False
    then have "noise_loop start dur (t # ts) s = Some (s\<lparr>clock := ts\<rparr>)" by simp
    moreover have "clock (s\<lparr>clock := ts\<rparr>) = drop 1 (t # ts)" by simp
    ultimately show ?thesis by (intro exI[of _ "s\<lparr>clock := ts\<rparr>"] exI[of _ 1]) simp
  next
    case True
    then have el: "unat t - unat start < unat dur" using elapsed_less[OF st] by simp
    have s1: "sorted_wrt (<) (map unat ts)" using Cons.prems(1) by simp
    have s2: "\<forall>t' \<in> set ts. Suc (unat t) \<le> unat t'" using Cons.prems(1) by auto
    have s3: "unat start \<le> Suc (unat t)" using st by simp
    have s4: "unat start + unat dur < Suc (unat t) + length ts"
      using Cons.prems(4) lt by simp
    have s5: "ts \<noteq> []"
    proof
      assume "ts = []"
      with Cons.prems(4) have "unat start + unat dur < L + 1" by simp
      with lt el st show False by simp
    qed
    from Cons.IH[OF s1 s2 s3 s4 s5, of "noise_iter s"]
    obtain s' k where a: "noise_loop start dur ts (noise_iter s) = Some s'"
      and b: "clock s' = drop k ts" and c: "k \<le> Suc (unat start + unat dur - Suc (unat t))"
      by (elim exE conjE)
    from a True have a': "noise_loop start dur (t # ts) s = Some s'" by simp
    from b have b': "clock s' = drop (Suc k) (t # ts)" by simp
    from c lt el st have c': "Suc k \<le> Suc (unat start + unat dur - L)" by simp
    from a' b' c' show ?thesis by (intro exI conjI)
  qed
qed

lemma ticking_drop:
  assumes "ticking (n + k) s" "clock s' = drop j (clock s)" "j \<le> k"
  shows "ticking n s'"
  using assms by (auto simp: ticking_def drop_map[symmetric] sorted_wrt_drop)

lemma ticking_mono: "ticking n s \<Longrightarrow> m \<le> n \<Longrightarrow> ticking m s"
  by (simp add: ticking_def)

lemma fillSilenceWithNoise_terminates:
  assumes "ticking (n + unat dur + 2) s"
  shows "\<exists>s'. fillSilenceWithNoise dur s = Some s' \<and> ticking n s'"
proof -
  from assms have len: "unat dur + 2 \<le> length (clock s)"
    and so: "sorted_wrt (<) (map unat (clock s))" by (simp_all add: ticking_def)
  then obtain start ts where c: "clock s = start # ts" by (cases "clock s") simp_all
  define s1 where "s1 = s\<lparr>rnd := snd (random2 0 6 (rnd s)),
         radio := radio s @ [SetMaxTxPower (68 + int (fst (random2 0 6 (rnd s))))]\<rparr>"
  have f: "fillSilenceWithNoise dur s = noise_loop start dur ts s1"
    by (simp add: fillSilenceWithNoise_def c split_def Let_def s1_def)
  have p1: "sorted_wrt (<) (map unat ts)" using so c by simp
  have p2: "\<forall>t \<in> set ts. Suc (unat start) \<le> unat t" using so c by auto
  have p4: "unat start + unat dur < Suc (unat start) + length ts" using len c by simp
  have p5: "ts \<noteq> []" using len c by auto
  from noise_loop_terminates[OF p1 p2 _ p4 p5, of s1]
  obtain s' k where a: "noise_loop start dur ts s1 = Some s'" and b: "clock s' = drop k ts"
    and k: "k \<le> Suc (unat start + unat dur - Suc (unat start))"
    by auto
  from b c have b': "clock s' = drop (Suc k) (clock s)" by simp
  from k have k': "Suc k \<le> unat dur + 2" by simp
  have "ticking n s'"
    using ticking_drop[of n "unat dur + 2" s s' "Suc k"] assms b' k' by (simp add: add.assoc)
  with a f show ?thesis by simp
qed

lemma noise_gap_terminates:
  assumes "ticking (n + b + 1) s" "a < b" "b < 2 ^ 32"
  shows "\<exists>s'. noise_gap a b s = Some s' \<and> ticking n s'"
proof -
  define d where "d = fst (random2 a b (rnd s))"
  have db: "d < b" unfolding d_def using assms(2) by (rule random2_bounds)
  with assms(3) have u: "unat (of_nat d :: millis_t) = d"
    by (simp add: unat_of_nat take_bit_nat_eq_self)
  have "ticking (n + unat (of_nat d :: millis_t) + 2) (s\<lparr>rnd := snd (random2 a b (rnd s))\<rparr>)"
    using assms(1) db u by (simp add: ticking_def)
  from fillSilenceWithNoise_terminates[OF this]
  show ?thesis by (simp add: noise_gap_def split_def Let_def d_def)
qed

lemma clock_upd [simp]:
  "clock (tx_auth i s) = clock s" "clock (tx_assoc i ssid s) = clock s"
  "clock (tx_data i s) = clock s" "clock (probe_tx i s) = clock s"
  "clock (beacon_slot s) = clock s" "clock (mesh_relay_slot s) = clock s"
  by (simp_all add: tx_auth_def tx_assoc_def tx_data_def probe_tx_def beacon_slot_def
        mesh_relay_slot_def Let_def split_def)

lemma ticking_upd [simp]:
  "ticking n (tx_auth i s) = ticking n s" "ticking n (tx_assoc i ssid s) = ticking n s"
  "ticking n (tx_data i s) = ticking n s" "ticking n (probe_tx i s) = ticking n s"
  "ticking n (beacon_slot s) = ticking n s" "ticking n (mesh_relay_slot s) = ticking n s"
  by (simp_all add: ticking_def tx_auth_def tx_assoc_def tx_data_def probe_tx_def beacon_slot_def
        mesh_relay_slot_def Let_def split_def)

lemma data_burst_terminates:
  "ticking (n + 11 * b) s \<Longrightarrow> \<exists>s'. data_burst b i s = Some s' \<and> ticking n s'"
proof (induction b arbitrary: s)
  case 0
  then show ?case by simp
next
  case (Suc b)
  then have "ticking ((n + 11 * b) + 10 + 1) (tx_data i s)" by (simp add: ticking_def)
  from noise_gap_terminates[OF this, of 3]
  obtain s1 where a: "noise_gap 3 10 (tx_data i s) = Some s1" and t: "ticking (n + 11 * b) s1"
    by auto
  from Suc.IH[OF t] a show ?case by simp
qed

lemma interaction_sim_terminates:
  assumes "ticking (n + 193) s"
  shows "\<exists>s'. interaction_sim i s = Some s' \<and> ticking n s'"
proof -
  define s1 where "s1 = s\<lparr>activeSwarm := (activeSwarm s)[i := (activeSwarm s ! i)\<lparr>hasConnected := True\<rparr>]\<rparr>"
  define ssid where "ssid = activeSSIDs s ! nat (preferredSSIDIndex (activeSwarm s ! i) mod 2 ^ 32)"
  have "ticking ((n + 172) + 20 + 1) (tx_auth i s1)" using assms by (simp add: s1_def ticking_def)
  from noise_gap_terminates[OF this, of 7]
  obtain s2 where a: "noise_gap 7 20 (tx_auth i s1) = Some s2" and t2: "ticking (n + 172) s2"
    by auto
  from t2 have "ticking ((n + 121) + 50 + 1) (tx_assoc i ssid s2)" by (simp add: ticking_def)
  from noise_gap_terminates[OF this, of 22]
  obtain s3 where b: "noise_gap 22 50 (tx_assoc i ssid s2) = Some s3" and t3: "ticking (n + 121) s3"
    by auto
  define k where "k = fst (random2 3 12 (rnd s3))"
  have "k < 12" unfolding k_def by (rule random2_bounds) simp
  with t3 have "ticking (n + 11 * k) (s3\<lparr>rnd := snd (random2 3 12 (rnd s3))\<rparr>)"
    by (simp add: ticking_def)
  from data_burst_terminates[OF this, of i]
  obtain s4 where c: "data_burst k i (s3\<lparr>rnd := snd (random2 3 12 (rnd s3))\<rparr>) = Some s4"
    and t4: "ticking n s4" by auto
  from t4 have "ticking n (s4\<lparr>interactionCount := interactionCount s4 + 1\<rparr>)"
    by (simp add: ticking_def)
  with a b c show ?thesis
    unfolding s1_def ssid_def k_def
    by (simp add: interaction_sim_def Let_def split_def)
qed

lemma slot_tail_terminates:
  assumes "ticking (n + 6) s"
  shows "\<exists>s'. slot_tail s = Some s' \<and> ticking n s'"
proof -
  from assms have "ticking (n + 5 + 1) (beacon_slot s)" by (simp add: ticking_def)
  from noise_gap_terminates[OF this, of 1] show ?thesis by (simp add: slot_tail_def)
qed

lemma packet_slot_unfold:
  "packet_slot s =
     (let s1 = mesh_relay_slot s;
          i = fst (random (length (activeSwarm s1)) (rnd s1));
          vd = activeSwarm s1 ! i;
          s2 = s1\<lparr>rnd := snd (random (length (activeSwarm s1)) (rnd s1)),
                  radio := radio s1 @ [SetMaxTxPower (txPower vd)]\<rparr>;
          s3 = s2\<lparr>rnd := snd (random 100 (rnd s2))\<rparr>
      in if activeSwarm s1 = [] then slot_tail s1
         else if is5GHzBand s2 \<and> generation vd = GEN_LEGACY then Some s2
         else Option.bind
                (if fst (random 100 (rnd s2)) < 2 \<and> preferredSSIDIndex vd \<noteq> -1
                    \<and> index_below_size (preferredSSIDIndex vd) (length (activeSSIDs s3))
                 then interaction_sim i s3 else Some (probe_tx i s3))
                slot_tail)"
  by (simp add: packet_slot_def Let_def split_def)

lemma packet_slot_terminates:
  assumes "ticking (n + 199) s"
  shows "\<exists>s'. packet_slot s = Some s' \<and> ticking n s'"
proof -
  define s1 where "s1 = mesh_relay_slot s"
  define i where "i = fst (random (length (activeSwarm s1)) (rnd s1))"
  define vd where "vd = activeSwarm s1 ! i"
  define s2 where "s2 = s1\<lparr>rnd := snd (random (length (activeSwarm s1)) (rnd s1)),
                             radio := radio s1 @ [SetMaxTxPower (txPower vd)]\<rparr>"
  define s3 where "s3 = s2\<lparr>rnd := snd (random 100 (rnd s2))\<rparr>"
  define c where "c \<longleftrightarrow> fst (random 100 (rnd s2)) < 2 \<and> preferredSSIDIndex vd \<noteq> -1
                       \<and> index_below_size (preferredSSIDIndex vd) (length (activeSSIDs s3))"
  have ps: "packet_slot s =
      (if activeSwarm s1 = [] then slot_tail s1
       else if is5GHzBand s2 \<and> generation vd = GEN_LEGACY then Some s2
       else Option.bind (if c then interaction_sim i s3 else Some (probe_tx i s3)) slot_tail)"
    unfolding packet_slot_unfold[of s] s1_def i_def vd_def s2_def s3_def c_def Let_def
    by (rule refl)
  have t1: "ticking (n + 199) s1" using assms by (simp add: s1_def)
  have t2: "ticking (n + 199) s2" using t1 by (simp add: ticking_def s2_def)
  have t3: "ticking ((n + 6) + 193) s3" using t2 by (simp add: ticking_def s3_def)
  have "\<exists>sm. (if c then interaction_sim i s3 else Some (probe_tx i s3)) = Some sm \<and> ticking (n + 6) sm"
  proof (cases c)
    case True
    with interaction_sim_terminates[OF t3, of i] show ?thesis by simp
  next
    case False
    with ticking_mono[OF t3, of "n + 6"] show ?thesis by simp
  qed
  then obtain sm where m: "(if c then interaction_sim i s3 else Some (probe_tx i s3)) = Some sm"
    and tm: "ticking (n + 6) sm" by auto
  from slot_tail_terminates[OF tm] obtain s' where tl: "slot_tail sm = Some s'" and t': "ticking n s'"
    by auto
  from slot_tail_terminates[OF ticking_mono[OF t1, of "n + 6"]]
  obtain s'' where tl1: "slot_tail s1 = Some s''" and t'': "ticking n s''" by auto
  have t2': "ticking n s2" using t2 by (rule ticking_mono) simp
  show ?thesis
    using m tl t' tl1 t'' t2' by (auto simp: ps)
qed

lemma packet_slots_terminates:
  "ticking (n + 199 * k) s \<Longrightarrow> \<exists>s'. packet_slots k s = Some s' \<and> ticking n s'"
proof (induction k arbitrary: s)
  case 0
  then show ?case by simp
next
  case (Suc k)
  then have "ticking ((n + 199 * k) + 199) s" by (simp add: ticking_def)
  from packet_slot_terminates[OF this] obtain s1 where a: "packet_slot s = Some s1"
    and t: "ticking (n + 199 * k) s1" by auto
  from Suc.IH[OF t] a show ?case by simp
qed


lemma millis_terminates:
  assumes "ticking (Suc n) s"
  shows "\<exists>t. millis s = Some (t, s\<lparr>clock := tl (clock s)\<rparr>) \<and> ticking n (s\<lparr>clock := tl (clock s)\<rparr>)"
proof -
  from assms obtain t ts where c: "clock s = t # ts" by (cases "clock s") (simp_all add: ticking_def)
  with assms show ?thesis by (simp add: millis_def ticking_def)
qed

lemma channel_hop_terminates:
  assumes "ticking (n + 8758) s"
  shows "\<exists>s'. channel_hop c5 now s = Some s' \<and> ticking n s'"
proof -
  from assms have "ticking (Suc (n + 8757)) s" by (simp add: ticking_def)
  from millis_terminates[OF this] obtain hopStart where
    m0: "millis s = Some (hopStart, s\<lparr>clock := tl (clock s)\<rparr>)"
    and t0: "ticking (n + 8757) (s\<lparr>clock := tl (clock s)\<rparr>)" by auto
  define s0 where "s0 = s\<lparr>clock := tl (clock s)\<rparr>"
  define s1 where "s1 = select_channel c5
      (s0\<lparr>lastChannelHop := now,
           nextChannelHopInterval := int (fst (random2 120 300 (rnd s0))),
           rnd := snd (random2 120 300 (rnd s0))\<rparr>)"
  define s2 where "s2 = s1\<lparr>radio := radio s1 @ [SetChannel (currentChannel s1)]\<rparr>"
  define k where "k = fst (random2 MIN_PACKETS_PER_HOP MAX_PACKETS_PER_HOP (rnd s2))"
  define s2' where "s2' = s2\<lparr>rnd := snd (random2 MIN_PACKETS_PER_HOP MAX_PACKETS_PER_HOP (rnd s2))\<rparr>"
  have "k < 45" unfolding k_def MIN_PACKETS_PER_HOP_def MAX_PACKETS_PER_HOP_def
    by (rule random2_bounds) simp
  then have "Suc n + 199 * k \<le> n + 8757" by simp
  moreover have "clock s2' = clock s0"
    by (simp add: s2'_def s2_def s1_def select_channel_def)
  ultimately have "ticking (Suc n + 199 * k) s2'" using t0 by (simp add: ticking_def s0_def)
  from packet_slots_terminates[OF this] obtain s3 where
    p: "packet_slots k s2' = Some s3" and t3: "ticking (Suc n) s3" by auto
  from millis_terminates[OF t3] obtain t where
    m3: "millis s3 = Some (t, s3\<lparr>clock := tl (clock s3)\<rparr>)"
    and t4: "ticking n (s3\<lparr>clock := tl (clock s3)\<rparr>)" by auto
  from t4 have "ticking n (s3\<lparr>clock := tl (clock s3),
        ghostRadioTime := ghostRadioTime s3 + (t - hopStart),
        activeTimeTotal := activeTimeTotal s3 + (t - hopStart)\<rparr>)"
    by (simp add: ticking_def)
  with m0 p m3 show ?thesis
    unfolding s0_def s1_def s2_def k_def s2'_def
    by (simp add: channel_hop_def Let_def split_def)
qed

lemma ticking_upt:
  assumes "clock s = map of_nat [a ..< b]" "b \<le> 2 ^ 32"
  shows "ticking (b - a) s"
proof -
  have "map unat (map (of_nat :: nat \<Rightarrow> millis_t) [a ..< b]) = map (\<lambda>x. x) [a ..< b]"
    unfolding map_map
  proof (rule map_cong[OF refl])
    fix x assume "x \<in> set [a ..< b]"
    with assms(2) have "x < 2 ^ 32" by simp
    then show "(unat \<circ> (of_nat :: nat \<Rightarrow> millis_t)) x = x"
      by (simp add: unat_of_nat take_bit_nat_eq_self)
  qed
  then have "map unat (clock s) = [a ..< b]" by (simp add: assms(1))
  then show ?thesis by (simp add: ticking_def assms(1))
qed

theorem no_legacy_on_5ghz_witness:
  "(is5GHzBand sys_5g_legacy \<and> activeSwarm sys_5g_legacy \<noteq> []
      \<and> generation (activeSwarm sys_5g_legacy
           ! fst (random (length (activeSwarm sys_5g_legacy)) (rnd sys_5g_legacy))) = GEN_LEGACY
      \<and> packet_slot sys_5g_legacy =
        Some (sys_5g_legacy\<lparr>rnd := snd (random (length (activeSwarm sys_5g_legacy)) (rnd sys_5g_legacy)),
                radio := radio sys_5g_legacy @ [SetMaxTxPower
                  (txPower (activeSwarm sys_5g_legacy
                     ! fst (random (length (activeSwarm sys_5g_legacy)) (rnd sys_5g_legacy))))]\<rparr>))
   \<and> (is5GHzBand sys_5g_modern
      \<and> (\<exists>s'. packet_slots 1 sys_5g_modern = Some s'
           \<and> (\<exists>new. radio s' = radio sys_5g_modern @ new
                \<and> (\<forall>x \<in> set (device_tx new). generation (fst x) \<noteq> GEN_LEGACY))))
   \<and> (nextHopIs5G sys_hop
      \<and> (\<exists>s''. channel_hop True 1000 sys_hop = Some s'' \<and> is5GHzBand s''
           \<and> (\<exists>new. radio s'' = radio sys_hop @ new
                \<and> (\<forall>x \<in> set (device_tx new). generation (fst x) \<noteq> GEN_LEGACY))))"
proof -
  have h1: "is5GHzBand sys_5g_legacy \<and> activeSwarm sys_5g_legacy \<noteq> []
      \<and> generation (activeSwarm sys_5g_legacy
           ! fst (random (length (activeSwarm sys_5g_legacy)) (rnd sys_5g_legacy))) = GEN_LEGACY"
    by (simp add: sys_5g_legacy_def sys0_def random_def dev_legacy_def)
  from no_legacy_on_5ghz[where s = sys_5g_legacy] h1
  have w1: "is5GHzBand sys_5g_legacy \<and> activeSwarm sys_5g_legacy \<noteq> []
      \<and> generation (activeSwarm sys_5g_legacy
           ! fst (random (length (activeSwarm sys_5g_legacy)) (rnd sys_5g_legacy))) = GEN_LEGACY
      \<and> packet_slot sys_5g_legacy =
        Some (sys_5g_legacy\<lparr>rnd := snd (random (length (activeSwarm sys_5g_legacy)) (rnd sys_5g_legacy)),
                radio := radio sys_5g_legacy @ [SetMaxTxPower
                  (txPower (activeSwarm sys_5g_legacy
                     ! fst (random (length (activeSwarm sys_5g_legacy)) (rnd sys_5g_legacy))))]\<rparr>)"
    by blast
  have b2: "is5GHzBand sys_5g_modern" by (simp add: sys_5g_modern_def)
  have "clock sys_5g_modern = clock_1ms" by (simp add: sys_5g_modern_def)
  then have "ticking (21000 - 1000) sys_5g_modern"
    unfolding clock_1ms_def by (rule ticking_upt) simp
  then have "ticking (1 + 199 * 1) sys_5g_modern" by (rule ticking_mono) simp
  from packet_slots_terminates[OF this] obtain s' where
    p2: "packet_slots 1 sys_5g_modern = Some s'" by auto
  from no_legacy_on_5ghz[where s = sys_5g_modern and n = 1 and s' = s'] b2 p2
  have "\<exists>new. radio s' = radio sys_5g_modern @ new
                \<and> (\<forall>x \<in> set (device_tx new). generation (fst x) \<noteq> GEN_LEGACY)"
    by blast
  with p2 have e2: "\<exists>s'. packet_slots 1 sys_5g_modern = Some s'
           \<and> (\<exists>new. radio s' = radio sys_5g_modern @ new
                \<and> (\<forall>x \<in> set (device_tx new). generation (fst x) \<noteq> GEN_LEGACY))"
    by blast
  have b3: "nextHopIs5G sys_hop" by (simp add: sys_hop_def sys0_def)
  have "clock sys_hop = clock_1ms" by (simp add: sys_hop_def)
  then have "ticking (21000 - 1000) sys_hop"
    unfolding clock_1ms_def by (rule ticking_upt) simp
  then have "ticking (0 + 8758) sys_hop" by (rule ticking_mono) simp
  from channel_hop_terminates[OF this] obtain s'' where
    p3: "channel_hop True 1000 sys_hop = Some s''" by auto
  from no_legacy_on_5ghz[where s = sys_hop and now = 1000 and s'' = s''] b3 p3
  have "is5GHzBand s'' \<and> (\<exists>new. radio s'' = radio sys_hop @ new
                \<and> (\<forall>x \<in> set (device_tx new). generation (fst x) \<noteq> GEN_LEGACY))"
    by blast
  with p3 have e3: "\<exists>s''. channel_hop True 1000 sys_hop = Some s'' \<and> is5GHzBand s''
           \<and> (\<exists>new. radio s'' = radio sys_hop @ new
                \<and> (\<forall>x \<in> set (device_tx new). generation (fst x) \<noteq> GEN_LEGACY))"
    by blast
  show ?thesis by (rule conjI[OF w1 conjI[OF conjI[OF b2 e2] conjI[OF b3 e3]]])
qed

section \<open>The interaction simulation\<close>

lemma seq_chain_append:
  "seq_chain q xs qm \<Longrightarrow> seq_chain qm ys qe \<Longrightarrow> seq_chain q (xs @ ys) qe"
  by (induction xs arbitrary: q) simp_all

lemma dev_effect_trans:
  assumes "dev_effect i s s' fs" "dev_effect i s' s'' gs"
  shows "dev_effect i s s'' (fs @ gs)"
  using assms unfolding dev_effect_def
  by (auto intro: seq_chain_append)

lemma dev_effect_noise:
  assumes "noise_step s s'"
  shows "dev_effect i s s' []"
  using noise_step_fields(1,3,4,6,11)[OF assms]
  by (simp add: dev_effect_def)

lemma sequenceNumber_bump: "sequenceNumber (bump_seq k vd) = seq_plus (sequenceNumber vd) k"
  by (simp add: bump_seq_def seq_plus_def)

lemma mac_bump [simp]: "mac (bump_seq k vd) = mac vd"
  by (simp add: bump_seq_def)

lemma header_fields:
  "length a = 4 \<Longrightarrow> length b = 6 \<Longrightarrow> length c = 6 \<Longrightarrow> length d = 6 \<Longrightarrow>
   take 6 (drop 10 (a @ b @ c @ d @ seq_ctl sq @ rest)) = c
   \<and> take 2 (drop 22 (a @ b @ c @ d @ seq_ctl sq @ rest)) = seq_ctl sq"
  by simp

lemma sent_by_auth: "sent_by (mac vd) (vd, buildAuthPacket vd)"
  unfolding buildAuthPacket_def sent_by_def
  using header_fields[of "[0xB0, 0x00, 0x00, 0x01]" "mac_bytes (bssid_target vd)" "mac_bytes (mac vd)"
      "mac_bytes (bssid_target vd)" "sequenceNumber vd" "[0x00, 0x00] @ [0x01, 0x00] @ [0x00, 0x00]"]
  by simp

lemma sent_by_assoc: "sent_by (mac vd) (vd, buildAssocRequestPacket is5 vd ssid)"
proof -
  have "\<exists>rest. buildAssocRequestPacket is5 vd ssid =
      [0x00, 0x00, 0x00, 0x00] @ mac_bytes (bssid_target vd) @ mac_bytes (mac vd)
        @ mac_bytes (bssid_target vd) @ seq_ctl (sequenceNumber vd) @ rest"
    by (simp add: buildAssocRequestPacket_shape assoc_header_def)
  then obtain rest where "buildAssocRequestPacket is5 vd ssid =
      [0x00, 0x00, 0x00, 0x00] @ mac_bytes (bssid_target vd) @ mac_bytes (mac vd)
        @ mac_bytes (bssid_target vd) @ seq_ctl (sequenceNumber vd) @ rest" ..
  then show ?thesis
    unfolding sent_by_def
    using header_fields[of "[0x00, 0x00, 0x00, 0x00]" "mac_bytes (bssid_target vd)" "mac_bytes (mac vd)"
      "mac_bytes (bssid_target vd)" "sequenceNumber vd" rest]
    by simp
qed

lemma sent_by_data: "sent_by (mac vd) (vd, fst (buildEncryptedDataPacket vd g))"
proof -
  have "\<exists>rest. fst (buildEncryptedDataPacket vd g) =
      [0x88, 0x41, 0x00, 0x00] @ mac_bytes (bssid_target vd) @ mac_bytes (mac vd)
        @ mac_bytes (bssid_target vd) @ seq_ctl (sequenceNumber vd) @ rest"
    by (simp add: buildEncryptedDataPacket_def split_def Let_def)
  then obtain rest where "fst (buildEncryptedDataPacket vd g) =
      [0x88, 0x41, 0x00, 0x00] @ mac_bytes (bssid_target vd) @ mac_bytes (mac vd)
        @ mac_bytes (bssid_target vd) @ seq_ctl (sequenceNumber vd) @ rest" ..
  then show ?thesis
    unfolding sent_by_def
    using header_fields[of "[0x88, 0x41, 0x00, 0x00]" "mac_bytes (bssid_target vd)" "mac_bytes (mac vd)"
      "mac_bytes (bssid_target vd)" "sequenceNumber vd" rest]
    by simp
qed

lemma dev_effect_auth:
  assumes "i < length (activeSwarm s)"
  shows "dev_effect i s (tx_auth i s)
           [(activeSwarm s ! i, buildAuthPacket (activeSwarm s ! i))]"
  using assms by (simp add: dev_effect_def tx_auth_def Let_def device_tx_append sequenceNumber_bump sent_by_auth)

lemma dev_effect_assoc:
  assumes "i < length (activeSwarm s)"
  shows "dev_effect i s (tx_assoc i ssid s)
           [(activeSwarm s ! i, buildAssocRequestPacket (is5GHzBand s) (activeSwarm s ! i) ssid)]"
  using assms by (simp add: dev_effect_def tx_assoc_def Let_def device_tx_append sequenceNumber_bump sent_by_assoc)

lemma dev_effect_data:
  assumes "i < length (activeSwarm s)"
  shows "dev_effect i s (tx_data i s)
           [(activeSwarm s ! i, fst (buildEncryptedDataPacket (activeSwarm s ! i) (rnd s)))]"
  using assms
  by (simp add: dev_effect_def tx_data_def Let_def split_def device_tx_append sequenceNumber_bump sent_by_data)

lemma data_head: "take 2 (fst (buildEncryptedDataPacket vd g)) = [0x88, 0x41]"
  by (simp add: buildEncryptedDataPacket_def split_def Let_def)

lemma auth_head: "take 2 (buildAuthPacket vd) = [0xB0, 0x00]"
  by (simp add: buildAuthPacket_def)

lemma assoc_head: "take 2 (buildAssocRequestPacket is5 vd ssid) = [0x00, 0x00]"
  by (simp add: buildAssocRequestPacket_shape assoc_header_def)

lemma assoc_has_rsn:
  assumes "length ssid < 256"
  shows "\<exists>ies. parse_ies (drop 28 (buildAssocRequestPacket is5 vd ssid)) = Some ies
            \<and> (48, RSN_PAYLOAD) \<in> set ies"
  using assoc_parse[OF assms, of is5 vd] by (simp add: assoc_ies_spec_def)

lemma dev_effect_length: "dev_effect i s s' fs \<Longrightarrow> length (activeSwarm s') = length (activeSwarm s)"
  by (simp add: dev_effect_def)

lemma data_burst_effect:
  "data_burst b i s = Some s' \<Longrightarrow> i < length (activeSwarm s) \<Longrightarrow>
   \<exists>ds. dev_effect i s s' ds \<and> length ds = b
        \<and> list_all (\<lambda>x. take 2 (snd x) = [0x88, 0x41]) ds"
proof (induction b arbitrary: s)
  case 0
  then show ?case by (simp add: dev_effect_def)
next
  case (Suc b)
  from Suc.prems(1) obtain s1 where
    a: "noise_gap 3 10 (tx_data i s) = Some s1" and r: "data_burst b i s1 = Some s'"
    by (auto simp: bind_eq_Some_conv)
  define f where "f = (activeSwarm s ! i, fst (buildEncryptedDataPacket (activeSwarm s ! i) (rnd s)))"
  have e1: "dev_effect i s (tx_data i s) [f]"
    unfolding f_def by (rule dev_effect_data[OF Suc.prems(2)])
  have e2: "dev_effect i (tx_data i s) s1 []"
    by (rule dev_effect_noise[OF noise_gap_step[OF a]])
  from dev_effect_trans[OF e1 e2] have e12: "dev_effect i s s1 [f]" by simp
  then have l1: "i < length (activeSwarm s1)" using Suc.prems(2) by (simp add: dev_effect_def)
  from Suc.IH[OF r l1] obtain ds where e3: "dev_effect i s1 s' ds" and len: "length ds = b"
    and hd: "list_all (\<lambda>x. take 2 (snd x) = [0x88, 0x41]) ds" by auto
  from dev_effect_trans[OF e12 e3] have "dev_effect i s s' (f # ds)" by simp
  moreover have "length (f # ds) = Suc b" using len by simp
  moreover have "list_all (\<lambda>x. take 2 (snd x) = [0x88, 0x41]) (f # ds)"
    using hd by (simp add: f_def data_head)
  ultimately show ?case by (intro exI conjI)
qed

lemma interaction_sim_effect:
  assumes "interaction_sim i s = Some s'" "i < length (activeSwarm s)"
  shows "\<exists>va vb ds.
      dev_effect i s (s'\<lparr>interactionCount := interactionCount s\<rparr>)
        ((va, buildAuthPacket va)
         # (vb, buildAssocRequestPacket (is5GHzBand s) vb
                  (activeSSIDs s ! nat (preferredSSIDIndex (activeSwarm s ! i) mod 2 ^ 32)))
         # ds)
      \<and> 3 \<le> length ds \<and> length ds \<le> 11
      \<and> list_all (\<lambda>x. take 2 (snd x) = [0x88, 0x41]) ds
      \<and> interactionCount s' = interactionCount s + 1"
proof -
  define vd where "vd = activeSwarm s ! i"
  define s1 where "s1 = s\<lparr>activeSwarm := (activeSwarm s)[i := vd\<lparr>hasConnected := True\<rparr>]\<rparr>"
  define ssid where "ssid = activeSSIDs s ! nat (preferredSSIDIndex vd mod 2 ^ 32)"
  from assms(1) obtain s2 s3 s4 where
    a: "noise_gap 7 20 (tx_auth i s1) = Some s2"
    and b: "noise_gap 22 50 (tx_assoc i ssid s2) = Some s3"
    and c: "data_burst (fst (random2 3 12 (rnd s3))) i (s3\<lparr>rnd := snd (random2 3 12 (rnd s3))\<rparr>) = Some s4"
    and d: "s' = s4\<lparr>interactionCount := interactionCount s4 + 1\<rparr>"
    unfolding interaction_sim_def s1_def ssid_def vd_def
    by (auto simp: bind_eq_Some_conv Let_def split_def)
  define va where "va = activeSwarm s1 ! i"
  define vb where "vb = activeSwarm s2 ! i"
  have e0: "dev_effect i s s1 []"
    using assms(2) by (simp add: dev_effect_def s1_def vd_def)
  have l1: "i < length (activeSwarm s1)" using assms(2) by (simp add: s1_def)
  have e1: "dev_effect i s1 (tx_auth i s1) [(va, buildAuthPacket va)]"
    unfolding va_def by (rule dev_effect_auth[OF l1])
  have e2: "dev_effect i (tx_auth i s1) s2 []"
    by (rule dev_effect_noise[OF noise_gap_step[OF a]])
  from dev_effect_trans[OF dev_effect_trans[OF e0 e1] e2]
  have e02: "dev_effect i s s2 [(va, buildAuthPacket va)]" by simp
  then have l2: "i < length (activeSwarm s2)" and b2: "is5GHzBand s2 = is5GHzBand s"
    using assms(2) by (simp_all add: dev_effect_def)
  have e3: "dev_effect i s2 (tx_assoc i ssid s2)
      [(vb, buildAssocRequestPacket (is5GHzBand s) vb ssid)]"
    unfolding vb_def b2[symmetric] by (rule dev_effect_assoc[OF l2])
  have e4: "dev_effect i (tx_assoc i ssid s2) s3 []"
    by (rule dev_effect_noise[OF noise_gap_step[OF b]])
  from dev_effect_trans[OF dev_effect_trans[OF e02 e3] e4]
  have e04: "dev_effect i s s3
      [(va, buildAuthPacket va), (vb, buildAssocRequestPacket (is5GHzBand s) vb ssid)]" by simp
  then have l3: "i < length (activeSwarm (s3\<lparr>rnd := snd (random2 3 12 (rnd s3))\<rparr>))"
    using assms(2) by (simp add: dev_effect_def)
  have e5: "dev_effect i s3 (s3\<lparr>rnd := snd (random2 3 12 (rnd s3))\<rparr>) []"
    by (simp add: dev_effect_def)
  from data_burst_effect[OF c l3] obtain ds where
    e6: "dev_effect i (s3\<lparr>rnd := snd (random2 3 12 (rnd s3))\<rparr>) s4 ds"
    and len: "length ds = fst (random2 3 12 (rnd s3))"
    and hd: "list_all (\<lambda>x. take 2 (snd x) = [0x88, 0x41]) ds" by auto
  from dev_effect_trans[OF dev_effect_trans[OF e04 e5] e6]
  have e06: "dev_effect i s s4
      ((va, buildAuthPacket va) # (vb, buildAssocRequestPacket (is5GHzBand s) vb ssid) # ds)"
    by simp
  have "3 \<le> fst (random2 3 12 (rnd s3))" "fst (random2 3 12 (rnd s3)) < 12"
    by (rule random2_bounds; simp)+
  with len have bounds: "3 \<le> length ds" "length ds \<le> 11" by simp_all
  have z: "s'\<lparr>interactionCount := interactionCount s\<rparr> = s4\<lparr>interactionCount := interactionCount s\<rparr>"
    by (simp add: d)
  have e: "dev_effect i s (s'\<lparr>interactionCount := interactionCount s\<rparr>)
      ((va, buildAuthPacket va) # (vb, buildAssocRequestPacket (is5GHzBand s) vb ssid) # ds)"
    using e06 by (simp add: z dev_effect_def)
  have ic: "interactionCount s' = interactionCount s + 1"
    using e06 by (simp add: d dev_effect_def)
  from e bounds hd ic show ?thesis
    unfolding ssid_def vd_def by (intro exI conjI)
qed

text \<open>
  Claim C5. The interaction simulation for the device at \<open>swarmIdx\<close>, whose preferred
  SSID index is valid, returns whenever the clock keeps advancing, and whenever it returns
  the frames it has added to the log for that device are, in this order: one
  Authentication frame (bytes \<open>B0 00\<close>), one Association Request (bytes \<open>00 00\<close>) whose
  information elements parse and contain the RSN element (tag 48), and between 3 and 11
  Data frames (bytes \<open>88 41\<close>). Each of them carries the device's MAC as address 2 and
  the Sequence Control field of the device's sequence number at the time; the first is
  built from the sequence number the device had before, each next one from the previous
  number plus one modulo 4096, and the device is left with the number after the last
  frame. The interaction counter has grown by exactly one.
\<close>

theorem interaction_sequence:
  assumes "swarmIdx < length (activeSwarm s)"
    and "preferredSSIDIndex (activeSwarm s ! swarmIdx) \<noteq> -1"
    and "index_below_size (preferredSSIDIndex (activeSwarm s ! swarmIdx)) (length (activeSSIDs s))"
    and "length (activeSSIDs s ! nat (preferredSSIDIndex (activeSwarm s ! swarmIdx) mod 2 ^ 32)) < 256"
  shows "(ticking 193 s \<longrightarrow> (\<exists>s1. interaction_sim swarmIdx s = Some s1))
    \<and> (interaction_sim swarmIdx s = Some s' \<longrightarrow>
         (\<exists>a b ds. device_tx (radio s') = device_tx (radio s) @ a # b # ds
            \<and> take 2 (snd a) = [0xB0, 0x00]
            \<and> take 2 (snd b) = [0x00, 0x00]
            \<and> (\<exists>ies. parse_ies (drop 28 (snd b)) = Some ies \<and> (48, RSN_PAYLOAD) \<in> set ies)
            \<and> 3 \<le> length ds \<and> length ds \<le> 11
            \<and> list_all (\<lambda>x. take 2 (snd x) = [0x88, 0x41]) ds
            \<and> list_all (sent_by (mac (activeSwarm s ! swarmIdx))) (a # b # ds)
            \<and> seq_chain (sequenceNumber (activeSwarm s ! swarmIdx))
                 (map (sequenceNumber \<circ> fst) (a # b # ds))
                 (sequenceNumber (activeSwarm s' ! swarmIdx))
            \<and> interactionCount s' = interactionCount s + 1))"
proof (intro conjI impI)
  assume "ticking 193 s"
  then have "ticking (0 + 193) s" by simp
  from interaction_sim_terminates[OF this, of swarmIdx]
  show "\<exists>s1. interaction_sim swarmIdx s = Some s1" by blast
next
  assume r: "interaction_sim swarmIdx s = Some s'"
  define ssid where "ssid = activeSSIDs s ! nat (preferredSSIDIndex (activeSwarm s ! swarmIdx) mod 2 ^ 32)"
  from interaction_sim_effect[OF r assms(1)] obtain va vb ds where
    e: "dev_effect swarmIdx s (s'\<lparr>interactionCount := interactionCount s\<rparr>)
          ((va, buildAuthPacket va) # (vb, buildAssocRequestPacket (is5GHzBand s) vb ssid) # ds)"
    and b1: "3 \<le> length ds" and b2: "length ds \<le> 11"
    and hd: "list_all (\<lambda>x. take 2 (snd x) = [0x88, 0x41]) ds"
    and ic: "interactionCount s' = interactionCount s + 1"
    unfolding ssid_def by (elim exE conjE)
  define a where "a = (va, buildAuthPacket va)"
  define b where "b = (vb, buildAssocRequestPacket (is5GHzBand s) vb ssid)"
  have l: "length ssid < 256" using assms(4) by (simp add: ssid_def)
  have ha: "take 2 (snd a) = [0xB0, 0x00]" by (simp add: a_def auth_head)
  have hb: "take 2 (snd b) = [0x00, 0x00]" by (simp add: b_def assoc_head)
  have rsn: "\<exists>ies. parse_ies (drop 28 (snd b)) = Some ies \<and> (48, RSN_PAYLOAD) \<in> set ies"
    using assoc_has_rsn[OF l, of "is5GHzBand s" vb] by (simp add: b_def)
  from e have tx: "device_tx (radio s') = device_tx (radio s) @ a # b # ds"
    and sb: "list_all (sent_by (mac (activeSwarm s ! swarmIdx))) (a # b # ds)"
    and ch: "seq_chain (sequenceNumber (activeSwarm s ! swarmIdx))
                 (map (sequenceNumber \<circ> fst) (a # b # ds))
                 (sequenceNumber (activeSwarm s' ! swarmIdx))"
    unfolding a_def b_def dev_effect_def by simp_all
  show "\<exists>a b ds. device_tx (radio s') = device_tx (radio s) @ a # b # ds
            \<and> take 2 (snd a) = [0xB0, 0x00]
            \<and> take 2 (snd b) = [0x00, 0x00]
            \<and> (\<exists>ies. parse_ies (drop 28 (snd b)) = Some ies \<and> (48, RSN_PAYLOAD) \<in> set ies)
            \<and> 3 \<le> length ds \<and> length ds \<le> 11
            \<and> list_all (\<lambda>x. take 2 (snd x) = [0x88, 0x41]) ds
            \<and> list_all (sent_by (mac (activeSwarm s ! swarmIdx))) (a # b # ds)
            \<and> seq_chain (sequenceNumber (activeSwarm s ! swarmIdx))
                 (map (sequenceNumber \<circ> fst) (a # b # ds))
                 (sequenceNumber (activeSwarm s' ! swarmIdx))
            \<and> interactionCount s' = interactionCount s + 1"
    apply (rule exI[of _ a], rule exI[of _ b], rule exI[of _ ds])
    using tx ha hb rsn b1 b2 hd sb ch ic by (intro conjI)
qed

theorem interaction_sequence_witness:
  "0 < length (activeSwarm sys_5g_modern)
   \<and> preferredSSIDIndex (activeSwarm sys_5g_modern ! 0) \<noteq> -1
   \<and> index_below_size (preferredSSIDIndex (activeSwarm sys_5g_modern ! 0))
        (length (activeSSIDs sys_5g_modern))
   \<and> length (activeSSIDs sys_5g_modern
        ! nat (preferredSSIDIndex (activeSwarm sys_5g_modern ! 0) mod 2 ^ 32)) < 256
   \<and> ticking 193 sys_5g_modern
   \<and> (\<exists>s' a b ds. interaction_sim 0 sys_5g_modern = Some s'
        \<and> device_tx (radio s') = a # b # ds
        \<and> take 2 (snd a) = [0xB0, 0x00]
        \<and> take 2 (snd b) = [0x00, 0x00]
        \<and> (\<exists>ies. parse_ies (drop 28 (snd b)) = Some ies \<and> (48, RSN_PAYLOAD) \<in> set ies)
        \<and> 3 \<le> length ds \<and> length ds \<le> 11
        \<and> list_all (\<lambda>x. take 2 (snd x) = [0x88, 0x41]) ds
        \<and> list_all (sent_by (0x02,0x14,0x38,1,2,3)) (a # b # ds)
        \<and> seq_chain 7 (map (sequenceNumber \<circ> fst) (a # b # ds))
             (sequenceNumber (activeSwarm s' ! 0))
        \<and> interactionCount s' = 1)"
proof -
  have h1: "0 < length (activeSwarm sys_5g_modern)"
    by (simp add: sys_5g_modern_def sys0_def)
  have h2: "preferredSSIDIndex (activeSwarm sys_5g_modern ! 0) \<noteq> -1"
    by (simp add: sys_5g_modern_def sys0_def dev_modern_ios_def)
  have h3: "index_below_size (preferredSSIDIndex (activeSwarm sys_5g_modern ! 0))
        (length (activeSSIDs sys_5g_modern))"
    by (simp add: sys_5g_modern_def sys0_def dev_modern_ios_def index_below_size_def)
  have h4: "length (activeSSIDs sys_5g_modern
        ! nat (preferredSSIDIndex (activeSwarm sys_5g_modern ! 0) mod 2 ^ 32)) < 256"
    by (simp add: sys_5g_modern_def sys0_def dev_modern_ios_def ssid_Home_def)
  have "clock sys_5g_modern = clock_1ms" by (simp add: sys_5g_modern_def)
  then have "ticking (21000 - 1000) sys_5g_modern"
    unfolding clock_1ms_def by (rule ticking_upt) simp
  then have h5: "ticking 193 sys_5g_modern" by (rule ticking_mono) simp
  have v: "radio sys_5g_modern = []" "interactionCount sys_5g_modern = 0"
    "mac (activeSwarm sys_5g_modern ! 0) = (0x02,0x14,0x38,1,2,3)"
    "sequenceNumber (activeSwarm sys_5g_modern ! 0) = 7"
    by (simp_all add: sys_5g_modern_def sys0_def dev_modern_ios_def)
  from interaction_sequence[OF h1 h2 h3 h4] h5
  obtain s' where r: "interaction_sim 0 sys_5g_modern = Some s'" by blast
  from interaction_sequence[OF h1 h2 h3 h4, of s'] r
  have "\<exists>a b ds. device_tx (radio s') = device_tx (radio sys_5g_modern) @ a # b # ds
            \<and> take 2 (snd a) = [0xB0, 0x00]
            \<and> take 2 (snd b) = [0x00, 0x00]
            \<and> (\<exists>ies. parse_ies (drop 28 (snd b)) = Some ies \<and> (48, RSN_PAYLOAD) \<in> set ies)
            \<and> 3 \<le> length ds \<and> length ds \<le> 11
            \<and> list_all (\<lambda>x. take 2 (snd x) = [0x88, 0x41]) ds
            \<and> list_all (sent_by (mac (activeSwarm sys_5g_modern ! 0))) (a # b # ds)
            \<and> seq_chain (sequenceNumber (activeSwarm sys_5g_modern ! 0))
                 (map (sequenceNumber \<circ> fst) (a # b # ds))
                 (sequenceNumber (activeSwarm s' ! 0))
            \<and> interactionCount s' = interactionCount sys_5g_modern + 1"
    by (rule conjunct2[THEN mp])
  then obtain a b ds where w: "device_tx (radio s') = a # b # ds"
      "take 2 (snd a) = [0xB0, 0x00]"
      "take 2 (snd b) = [0x00, 0x00]"
      "\<exists>ies. parse_ies (drop 28 (snd b)) = Some ies \<and> (48, RSN_PAYLOAD) \<in> set ies"
      "3 \<le> length ds" "length ds \<le> 11"
      "list_all (\<lambda>x. take 2 (snd x) = [0x88, 0x41]) ds"
      "list_all (sent_by (0x02,0x14,0x38,1,2,3)) (a # b # ds)"
      "seq_chain 7 (map (sequenceNumber \<circ> fst) (a # b # ds)) (sequenceNumber (activeSwarm s' ! 0))"
      "interactionCount s' = 1"
    unfolding v by (elim exE conjE) simp_all
  have "\<exists>s' a b ds. interaction_sim 0 sys_5g_modern = Some s'
        \<and> device_tx (radio s') = a # b # ds
        \<and> take 2 (snd a) = [0xB0, 0x00]
        \<and> take 2 (snd b) = [0x00, 0x00]
        \<and> (\<exists>ies. parse_ies (drop 28 (snd b)) = Some ies \<and> (48, RSN_PAYLOAD) \<in> set ies)
        \<and> 3 \<le> length ds \<and> length ds \<le> 11
        \<and> list_all (\<lambda>x. take 2 (snd x) = [0x88, 0x41]) ds
        \<and> list_all (sent_by (0x02,0x14,0x38,1,2,3)) (a # b # ds)
        \<and> seq_chain 7 (map (sequenceNumber \<circ> fst) (a # b # ds))
             (sequenceNumber (activeSwarm s' ! 0))
        \<and> interactionCount s' = 1"
    apply (rule exI[of _ s'], rule exI[of _ a], rule exI[of _ b], rule exI[of _ ds])
    using r w by (intro conjI)
  with h1 h2 h3 h4 h5 show ?thesis by (intro conjI)
qed

section \<open>The bound on the stored sequence numbers\<close>

lemma generate_seq_ok: "seq_ok (fst (generateWeightedIdentity ssids g))"
  by (simp add: generateWeightedIdentity_def split_def Let_def seq_ok_def random_4096_lt)

lemma populate_seq:
  "list_all seq_ok (activeSwarm s) \<Longrightarrow> list_all seq_ok (activeSwarm (populate n i heap s))"
  by (induction n i heap s rule: populate.induct)
     (simp_all add: split_def Let_def generate_seq_ok)

lemma populate_dormant: "dormantSwarm (populate n i heap s) = dormantSwarm s"
  by (induction n i heap s rule: populate.induct) (simp_all add: split_def Let_def)

lemma list_all_erase: "list_all P xs \<Longrightarrow> list_all P (erase_at i xs)"
  unfolding erase_at_def list_all_iff
  by (auto dest: in_set_takeD in_set_dropD)

lemma list_all_drop: "list_all P xs \<Longrightarrow> list_all P (drop n xs)"
  unfolding list_all_iff by (auto dest: in_set_dropD)

lemma processLifecycle_radio: "radio (processLifecycle s) = radio s"
  by (simp add: processLifecycle_def split_def Let_def)

lemma seq_ok_upd [simp]:
  "seq_ok (vd\<lparr>txPower := p\<rparr>) = seq_ok vd"
  "seq_ok (vd\<lparr>hasConnected := c\<rparr>) = seq_ok vd"
  "seq_ok (vd\<lparr>sequenceNumber := of_nat (k mod 4096)\<rparr>)"
  by (simp_all add: seq_ok_def of_nat_lt_4096)

lemma processLifecycle_seq_inv:
  assumes "seq_inv s"
  shows "seq_inv (processLifecycle s)"
proof -
  define leave where "leave = (if activeSwarm s \<noteq> [] then
                  (let (idx, g) = random (length (activeSwarm s)) (rnd s);
                       leaving = activeSwarm s ! idx;
                       sa = s\<lparr>rnd := g\<rparr>;
                       sb = (if length (dormantSwarm sa) < TARGET_DORMANT_POOL \<and> \<not> lowMemoryMode sa
                             then sa\<lparr>dormantSwarm := dormantSwarm sa @ [leaving]\<rparr> else sa)
                   in sb\<lparr>activeSwarm := erase_at idx (activeSwarm sb)\<rparr>)
                else s)"
  define arrive where "arrive = (\<lambda>s1 :: sys.
           (let (arriving, s2) =
                  (if dormantSwarm s1 \<noteq> [] \<and> fst (random 100 (rnd s1)) < 50 then
                     (let g1 = snd (random 100 (rnd s1));
                          (dIdx, g2) = random (length (dormantSwarm s1)) g1;
                          a0 = dormantSwarm s1 ! dIdx;
                          (k, g3) = random2 50 500 g2;
                          a1 = a0\<lparr>sequenceNumber := of_nat ((unat (sequenceNumber a0) + k) mod 4096)\<rparr>;
                          (r, g4) = random 100 g3;
                          (a2, g5) = (if r < 30
                                      then (let (d, g) = random 3 g4
                                            in (a1\<lparr>txPower := txPower a1 + (int d - 1) * 2\<rparr>, g))
                                      else (a1, g4))
                      in (a2\<lparr>hasConnected := False\<rparr>,
                          s1\<lparr>dormantSwarm := erase_at dIdx (dormantSwarm s1), rnd := g5\<rparr>))
                   else
                     (let g1 = (if dormantSwarm s1 \<noteq> [] then snd (random 100 (rnd s1)) else rnd s1);
                          (vd, g2) = generateWeightedIdentity (activeSSIDs s1) g1
                      in (vd, s1\<lparr>rnd := g2\<rparr>)));
                a3 = (if txPower arriving < MIN_TX_POWER
                      then arriving\<lparr>txPower := MIN_TX_POWER\<rparr> else arriving);
                a4 = (if txPower a3 > MAX_TX_POWER then a3\<lparr>txPower := MAX_TX_POWER\<rparr> else a3)
            in s2\<lparr>activeSwarm := activeSwarm s2 @ [a4]\<rparr>))"
  have e: "processLifecycle s =
      (if lowMemoryMode leave \<and> length (activeSwarm leave) > 800 then leave else arrive leave)"
    unfolding processLifecycle_def leave_def arrive_def Let_def by (rule refl)
  have l: "activeSwarm s \<noteq> [] \<Longrightarrow>
      seq_ok (activeSwarm s ! fst (random (length (activeSwarm s)) (rnd s)))"
    using assms by (simp add: seq_inv_def list_all_nth random_less)
  have i1: "seq_inv leave"
    using assms l by (simp add: leave_def seq_inv_def split_def Let_def list_all_erase)
  have i2: "seq_inv (arrive x)" if "seq_inv x" for x
    using that by (simp add: arrive_def seq_inv_def split_def Let_def list_all_erase generate_seq_ok)
  from i1 i2[OF i1] show ?thesis by (simp add: e)
qed

lemma funpow_inv: "P s \<Longrightarrow> (\<And>x. P x \<Longrightarrow> P (f x)) \<Longrightarrow> P ((f ^^ n) s)"
  by (induction n) simp_all

lemma lifecycle_tick_seq_inv:
  assumes "seq_inv s"
  shows "seq_inv (lifecycle_tick now s)"
proof (cases "now - lastLifecycleRun s > of_int (nextLifecycleInterval s)")
  case False
  with assms show ?thesis by (simp add: lifecycle_tick_def)
next
  case True
  have "\<And>x. seq_inv x \<Longrightarrow> seq_inv ((processLifecycle ^^ n) x)" for n
    by (rule funpow_inv) (simp_all add: processLifecycle_seq_inv)
  with True assms show ?thesis
    by (simp add: lifecycle_tick_def split_def Let_def seq_inv_def)
qed

lemma lifecycle_tick_radio: "radio (lifecycle_tick now s) = radio s"
proof -
  have "\<And>x. radio ((processLifecycle ^^ n) x) = radio x" for n
    by (induction n) (simp_all add: processLifecycle_radio)
  then show ?thesis by (simp add: lifecycle_tick_def split_def Let_def)
qed

lemma manageResources_seq_inv: "seq_inv s \<Longrightarrow> seq_inv (manageResources freeHeap s)"
  by (simp add: manageResources_def Let_def seq_inv_def list_all_drop)

lemma manageResources_radio: "radio (manageResources freeHeap s) = radio s"
  by (simp add: manageResources_def Let_def)

lemma learn_ssid_frame:
  "pools (learn_ssid now slot s) = pools s \<and> radio (learn_ssid now slot s) = radio s"
  by (simp add: learn_ssid_def Let_def split_def pools_def)

lemma drain_frame_aux:
  "pools (foldl (\<lambda>st slot. learn_ssid now slot st) s q) = pools s
   \<and> radio (foldl (\<lambda>st slot. learn_ssid now slot st) s q) = radio s"
  by (induction q arbitrary: s) (simp_all add: learn_ssid_frame)

lemma drain_frame:
  "pools (drain_ssid_queue now s) = pools s \<and> radio (drain_ssid_queue now s) = radio s"
  unfolding drain_ssid_queue_def using drain_frame_aux[of now "s\<lparr>ssidQueue := []\<rparr>" "ssidQueue s"]
  by (simp add: pools_def)

lemma seq_inv_pools: "pools s' = pools s \<Longrightarrow> seq_inv s' = seq_inv s"
  by (simp add: pools_def seq_inv_def)

lemma loop_head_seq_inv:
  assumes "seq_inv s"
  shows "seq_inv (loop_head freeHeap now s)" "radio (loop_head freeHeap now s) = radio s"
proof -
  have a: "seq_inv (drain_ssid_queue now s)"
    using seq_inv_pools[OF conjunct1[OF drain_frame[of now s]]] assms by simp
  have b: "seq_inv (manageMeshResources now (manageResources freeHeap (drain_ssid_queue now s)))"
    using manageResources_seq_inv[OF a, of freeHeap]
    by (simp add: manageMeshResources_def seq_inv_def)
  show "seq_inv (loop_head freeHeap now s)"
    unfolding loop_head_def by (rule lifecycle_tick_seq_inv[OF b])
  show "radio (loop_head freeHeap now s) = radio s"
    using drain_frame[of now s]
    by (simp add: loop_head_def lifecycle_tick_radio manageMeshResources_def manageResources_radio)
qed

section \<open>The mesh listener leaves the pools and the log alone\<close>

lemma mesh_stepI:
  "s' = s\<lparr>meshQueue := q, recentSenders := rs, meshCache := c,
            isMeshDetected := d, lastMeshPacketTime := t, clock := k\<rparr> \<Longrightarrow> mesh_step s s'"
  unfolding mesh_step_def by (intro exI)

lemma mesh_step_refl: "mesh_step s s"
  by (rule mesh_stepI[where q = "meshQueue s" and rs = "recentSenders s" and c = "meshCache s" and d = "isMeshDetected s" and t = "lastMeshPacketTime s" and k = "clock s"]) simp

lemma mesh_step_trans:
  assumes "mesh_step s s'" "mesh_step s' s''"
  shows "mesh_step s s''"
proof -
  from assms(1) obtain q rs c d t k where
    a: "s' = s\<lparr>meshQueue := q, recentSenders := rs, meshCache := c,
            isMeshDetected := d, lastMeshPacketTime := t, clock := k\<rparr>"
    unfolding mesh_step_def by (elim exE)
  from assms(2) obtain q2 rs2 c2 d2 t2 k2 where
    b: "s'' = s'\<lparr>meshQueue := q2, recentSenders := rs2, meshCache := c2,
            isMeshDetected := d2, lastMeshPacketTime := t2, clock := k2\<rparr>"
    unfolding mesh_step_def by (elim exE)
  show ?thesis
    by (rule mesh_stepI[where q = q2 and rs = rs2 and c = c2 and d = d2 and t = t2 and k = k2]) (simp add: a b)
qed

lemma mesh_step_queue: "mesh_step s (s\<lparr>meshQueue := q\<rparr>)"
  by (rule mesh_stepI[where q = q and rs = "recentSenders s" and c = "meshCache s" and d = "isMeshDetected s" and t = "lastMeshPacketTime s" and k = "clock s"]) simp

lemma mesh_step_senders: "mesh_step s (s\<lparr>recentSenders := rs\<rparr>)"
  by (rule mesh_stepI[where q = "meshQueue s" and rs = rs and c = "meshCache s" and d = "isMeshDetected s" and t = "lastMeshPacketTime s" and k = "clock s"]) simp

lemma mesh_step_cache: "mesh_step s (s\<lparr>meshCache := c\<rparr>)"
  by (rule mesh_stepI[where q = "meshQueue s" and rs = "recentSenders s" and c = c and d = "isMeshDetected s" and t = "lastMeshPacketTime s" and k = "clock s"]) simp

lemma mesh_step_detect: "mesh_step s (s\<lparr>isMeshDetected := d, lastMeshPacketTime := t\<rparr>)"
  by (rule mesh_stepI[where q = "meshQueue s" and rs = "recentSenders s" and c = "meshCache s" and d = d and t = t and k = "clock s"]) simp

lemma mesh_step_clock: "mesh_step s (s\<lparr>clock := k\<rparr>)"
  by (rule mesh_stepI[where q = "meshQueue s" and rs = "recentSenders s" and c = "meshCache s" and d = "isMeshDetected s" and t = "lastMeshPacketTime s" and k = k]) simp

lemma mesh_step_millis: "millis s = Some (t, s1) \<Longrightarrow> mesh_step s s1"
  using millis_Some(1)[of s t s1] by (simp add: mesh_step_clock)

lemma mesh_step_fields:
  assumes "mesh_step s s'"
  shows "pools s' = pools s" "radio s' = radio s" "local_mac_addr s' = local_mac_addr s"
    "meshRadioTime s' = meshRadioTime s" "lastMeshCheckTime s' = lastMeshCheckTime s"
    "activeTimeTotal s' = activeTimeTotal s"
proof -
  from assms obtain q rs c d t k where
    a: "s' = s\<lparr>meshQueue := q, recentSenders := rs, meshCache := c,
            isMeshDetected := d, lastMeshPacketTime := t, clock := k\<rparr>"
    unfolding mesh_step_def by (elim exE)
  show "pools s' = pools s" "radio s' = radio s" "local_mac_addr s' = local_mac_addr s"
    "meshRadioTime s' = meshRadioTime s" "lastMeshCheckTime s' = lastMeshCheckTime s"
    "activeTimeTotal s' = activeTimeTotal s"
    by (simp_all add: a pools_def)
qed

lemma meshSnifferCallback_step: "mesh_step s (meshSnifferCallback ty pkt s)"
  by (simp add: meshSnifferCallback_def Let_def mesh_step_refl mesh_step_queue)

lemma deliver_mesh_step: "mesh_step s (deliver_mesh evs s)"
  unfolding deliver_mesh_def
proof (induction evs arbitrary: s)
  case Nil
  show ?case by (simp add: mesh_step_refl)
next
  case (Cons e evs)
  have "mesh_step (meshSnifferCallback (fst e) (snd e) s)
     (foldl (\<lambda>st ev. meshSnifferCallback (fst ev) (snd ev) st)
        (meshSnifferCallback (fst e) (snd e) s) evs)"
    by (rule Cons.IH)
  with meshSnifferCallback_step[of s "fst e" "snd e"] show ?case
    by (simp add: mesh_step_trans)
qed

lemma track_sender_step:
  assumes "track_sender m s = Some s'"
  shows "mesh_step s s'"
proof -
  from assms obtain t s1 where m: "millis s = Some (t, s1)"
    and r: "s' = (if m \<in> fst ` set (recentSenders s1)
             then s1\<lparr>recentSenders := refresh_sender m t (recentSenders s1)\<rparr>
             else s1\<lparr>recentSenders := recentSenders s1 @ [(m, t)]\<rparr>)"
    unfolding track_sender_def by (auto simp: bind_eq_Some_conv)
  have "mesh_step s1 s'" unfolding r by (simp add: mesh_step_senders)
  with mesh_step_millis[OF m] show ?thesis by (rule mesh_step_trans)
qed

lemma cache_message_step:
  assumes "cache_message mp s = Some s'"
  shows "mesh_step s s'"
proof -
  from assms obtain t s1 where m: "millis s = Some (t, s1)"
    and r: "s' = (if mp \<in> payload ` set (meshCache s1)
             then s1\<lparr>meshCache := refresh_cached mp t (meshCache s1)\<rparr>
             else
               (let c = (if length (meshCache s1) \<ge> MAX_MESH_QUEUE_SIZE
                         then tl (meshCache s1) else meshCache s1)
                in s1\<lparr>meshCache := c @ [\<lparr>payload = mp, lastSeen = t\<rparr>]\<rparr>))"
    unfolding cache_message_def by (auto simp: bind_eq_Some_conv)
  have "mesh_step s1 s'" unfolding r by (simp add: mesh_step_cache Let_def)
  with mesh_step_millis[OF m] show ?thesis by (rule mesh_step_trans)
qed

lemma mesh_process_step:
  assumes "mesh_process mp s = Some s'"
  shows "mesh_step s s'"
proof (cases "length mp \<ge> 16 \<and> sender_of mp = local_mac_addr s")
  case True
  with assms show ?thesis by (simp add: mesh_process_def mesh_step_refl)
next
  case False
  with assms obtain s1 s2 t s3 where
    a: "(if length mp \<ge> 16 then track_sender (sender_of mp) s else Some s) = Some s1"
    and b: "cache_message mp s1 = Some s2"
    and c: "millis s2 = Some (t, s3)"
    and d: "s' = s3\<lparr>isMeshDetected := True, lastMeshPacketTime := t\<rparr>"
    unfolding mesh_process_def by (auto simp: bind_eq_Some_conv)
  have e1: "mesh_step s s1"
    using a by (cases "length mp \<ge> 16") (simp_all add: track_sender_step mesh_step_refl)
  have e2: "mesh_step s1 s2" by (rule cache_message_step[OF b])
  have e3: "mesh_step s2 s3" by (rule mesh_step_millis[OF c])
  have e4: "mesh_step s3 s'" unfolding d by (rule mesh_step_detect)
  show ?thesis
    by (rule mesh_step_trans[OF mesh_step_trans[OF mesh_step_trans[OF e1 e2] e3] e4])
qed

lemma listen_poll_step:
  assumes "listen_poll evs s = Some s'"
  shows "mesh_step s s'"
proof (cases "meshQueue (deliver_mesh evs s)")
  case Nil
  with assms have "s' = deliver_mesh evs s" by (simp add: listen_poll_def Let_def)
  then show ?thesis by (simp add: deliver_mesh_step)
next
  case (Cons mp q)
  with assms have "mesh_process mp ((deliver_mesh evs s)\<lparr>meshQueue := q\<rparr>) = Some s'"
    by (simp add: listen_poll_def Let_def)
  then have "mesh_step ((deliver_mesh evs s)\<lparr>meshQueue := q\<rparr>) s'" by (rule mesh_process_step)
  with mesh_step_trans[OF deliver_mesh_step mesh_step_queue] show ?thesis
    by (rule mesh_step_trans)
qed

lemma listen_loop_step:
  "listen_loop n start air s = Some s' \<Longrightarrow> mesh_step s s'"
proof (induction n arbitrary: air s)
  case 0
  then show ?case by simp
next
  case (Suc n)
  from Suc.prems obtain t s1 where m: "millis s = Some (t, s1)"
    and r: "(if t - start < MESH_CHECK_DURATION_MS
       then Option.bind (listen_poll (case air of [] \<Rightarrow> [] | evs # _ \<Rightarrow> evs) s1)
              (listen_loop n start (tl air))
       else Some s1) = Some s'"
    by (auto simp: bind_eq_Some_conv)
  show ?case
  proof (cases "t - start < MESH_CHECK_DURATION_MS")
    case False
    with r have "s' = s1" by simp
    with mesh_step_millis[OF m] show ?thesis by simp
  next
    case True
    with r obtain s2 where p: "listen_poll (case air of [] \<Rightarrow> [] | evs # _ \<Rightarrow> evs) s1 = Some s2"
      and l: "listen_loop n start (tl air) s2 = Some s'"
      by (auto simp: bind_eq_Some_conv)
    from mesh_step_trans[OF mesh_step_millis[OF m] listen_poll_step[OF p]] Suc.IH[OF l]
    show ?thesis by (rule mesh_step_trans)
  qed
qed

lemma checkAndListenForMesh_frame:
  assumes "checkAndListenForMesh air s = Some s'"
  shows "pools s' = pools s"
    "radio s' = radio s @ [SetPromiscuousRxCb CB_meshSnifferCallback, SetChannel MESH_CHANNEL,
                           SetPromiscuousRxCb CB_snifferCallback]"
proof -
  define s1 where "s1 = s\<lparr>radio := radio s @ [SetPromiscuousRxCb CB_meshSnifferCallback,
                                      SetChannel MESH_CHANNEL]\<rparr>"
  from assms obtain start s2 s3 t s4 where
    a: "millis s1 = Some (start, s2)"
    and b: "listen_loop (length (clock s2)) start air s2 = Some s3"
    and c: "millis s3 = Some (t, s4)"
    and d: "s' = s4\<lparr>meshRadioTime := meshRadioTime s4 + (t - start),
                     radio := radio s4 @ [SetPromiscuousRxCb CB_snifferCallback]\<rparr>"
    unfolding checkAndListenForMesh_def s1_def Let_def by (auto simp: bind_eq_Some_conv)
  have "mesh_step s1 s4"
    using mesh_step_trans[OF mesh_step_trans[OF mesh_step_millis[OF a] listen_loop_step[OF b]]
        mesh_step_millis[OF c]] .
  note f = mesh_step_fields[OF this]
  show "pools s' = pools s" using f(1) by (simp add: d s1_def pools_def)
  show "radio s' = radio s @ [SetPromiscuousRxCb CB_meshSnifferCallback, SetChannel MESH_CHANNEL,
                           SetPromiscuousRxCb CB_snifferCallback]"
    using f(2) by (simp add: d s1_def)
qed

lemma mesh_check_frame:
  assumes "mesh_check now air s = Some s'"
  shows "pools s' = pools s"
    "\<exists>new. radio s' = radio s @ new \<and> built_tx new = [] \<and> list_all (ev_ok q b) new"
proof -
  define due where "due \<longleftrightarrow> now - lastMeshCheckTime s >
      (if isMeshDetected s then MESH_ACTIVE_INTERVAL_MS else MESH_STANDBY_INTERVAL_MS)"
  have "pools s' = pools s
     \<and> (\<exists>new. radio s' = radio s @ new \<and> built_tx new = [] \<and> list_all (ev_ok q b) new)"
  proof (cases due)
    case False
    with assms have "s' = s" by (simp add: mesh_check_def due_def Let_def)
    then show ?thesis by simp
  next
    case True
    with assms obtain m0 s1 s2 t s3 where
      a: "millis s = Some (m0, s1)"
      and b: "checkAndListenForMesh air s1 = Some s2"
      and c: "millis (s2\<lparr>lastMeshCheckTime := now\<rparr>) = Some (t, s3)"
      and d: "s' = s3\<lparr>activeTimeTotal := activeTimeTotal s3 + (t - m0)\<rparr>"
      unfolding mesh_check_def due_def Let_def by (auto simp: bind_eq_Some_conv)
    note f1 = mesh_step_fields[OF mesh_step_millis[OF a]]
    note f2 = checkAndListenForMesh_frame[OF b]
    note f3 = mesh_step_fields[OF mesh_step_millis[OF c]]
    have p: "pools s' = pools s"
      using f1(1) f2(1) f3(1) by (simp add: d pools_def)
    have r: "radio s' = radio s @ [SetPromiscuousRxCb CB_meshSnifferCallback, SetChannel MESH_CHANNEL,
                           SetPromiscuousRxCb CB_snifferCallback]"
      using f1(2) f2(2) f3(2) by (simp add: d)
    show ?thesis
      apply (rule conjI[OF p])
      apply (rule exI[of _ "[SetPromiscuousRxCb CB_meshSnifferCallback, SetChannel MESH_CHANNEL,
                           SetPromiscuousRxCb CB_snifferCallback]"])
      using r by simp
  qed
  then show "pools s' = pools s"
    "\<exists>new. radio s' = radio s @ new \<and> built_tx new = [] \<and> list_all (ev_ok q b) new"
    by simp_all
qed

lemma built_tx_append [simp]: "built_tx (xs @ ys) = built_tx xs @ built_tx ys"
  by (induction xs rule: built_tx.induct) simp_all

lemma built_tx_ev_ok: "list_all (ev_ok True b) new \<Longrightarrow> list_all (\<lambda>f. f ! 23 = 0) (built_tx new)"
  by (induction new rule: built_tx.induct) simp_all

lemma loop_seq_inv:
  assumes "loop c5 freeHeap air s = Some s'" "seq_inv s"
  shows "seq_inv s'" "\<exists>new. radio s' = radio s @ new \<and> list_all (\<lambda>f. f ! 23 = 0) (built_tx new)"
proof -
  from assms(1) obtain now s0 s2 where
    a: "millis s = Some (now, s0)"
    and b: "mesh_check now air (mesh_decay now (loop_head freeHeap now s0)) = Some s2"
    and c: "hop_tick c5 now s2 = Some s'"
    unfolding loop_def loop_tail_def by (auto simp: bind_eq_Some_conv)
  note f0 = mesh_step_fields[OF mesh_step_millis[OF a]]
  have i0: "seq_inv s0" using seq_inv_pools[OF f0(1)] assms(2) by simp
  define s1 where "s1 = mesh_decay now (loop_head freeHeap now s0)"
  have i1: "seq_inv s1" and r1: "radio s1 = radio s"
    using loop_head_seq_inv[OF i0, of freeHeap now] f0(2)
    by (simp_all add: s1_def mesh_decay_def seq_inv_def)
  note f2 = mesh_check_frame(1)[OF b[folded s1_def]]
    mesh_check_frame(2)[OF b[folded s1_def], where q = True and b = False]
  have i2: "seq_inv s2" using seq_inv_pools[OF f2(1)] i1 by simp
  from f2(2) obtain new1 where r2: "radio s2 = radio s @ new1"
    and n1: "list_all (ev_ok True False) new1" and bt: "built_tx new1 = []"
    unfolding r1 by (elim exE conjE)
  have "seq_inv s' \<and> (\<exists>new. radio s' = radio s2 @ new \<and> list_all (\<lambda>f. f ! 23 = 0) (built_tx new))"
  proof (cases "now - lastChannelHop s2 > of_int (nextChannelHopInterval s2)")
    case False
    with c have "s' = s2" by (simp add: hop_tick_def)
    with i2 show ?thesis by simp
  next
    case True
    with c have h: "channel_hop c5 now s2 = Some s'" by (simp add: hop_tick_def)
    have "True \<longrightarrow> seq_inv s2" using i2 by simp
    note r = channel_hop_inv[OF h this]
    from r(1) have "seq_inv s'" by (simp add: hop_inv_def)
    moreover from r(2) obtain new where "radio s' = radio s2 @ new"
      "list_all (ev_ok True (c5 \<and> nextHopIs5G s2)) new"
      unfolding grows_def by (elim exE conjE)
    then have "\<exists>new. radio s' = radio s2 @ new \<and> list_all (\<lambda>f. f ! 23 = 0) (built_tx new)"
      using built_tx_ev_ok by blast
    ultimately show ?thesis by (rule conjI)
  qed
  then obtain new2 where i3: "seq_inv s'" and r3: "radio s' = radio s2 @ new2"
    and n2: "list_all (\<lambda>f. f ! 23 = 0) (built_tx new2)"
    by (elim exE conjE)
  show "seq_inv s'" by (rule i3)
  have "radio s' = radio s @ (new1 @ new2)" by (simp add: r3 r2)
  moreover have "list_all (\<lambda>f. f ! 23 = 0) (built_tx (new1 @ new2))"
    using n2 bt by simp
  ultimately show "\<exists>new. radio s' = radio s @ new \<and> list_all (\<lambda>f. f ! 23 = 0) (built_tx new)"
    by (intro exI conjI)
qed

section \<open>The scheduler pass returns under an advancing clock\<close>

lemma track_sender_terminates:
  assumes "clock s \<noteq> []"
  shows "\<exists>s'. track_sender m s = Some s' \<and> clock s' = drop 1 (clock s)"
proof -
  from assms obtain t ts where c: "clock s = t # ts" by (cases "clock s") simp_all
  then show ?thesis by (simp add: track_sender_def millis_def)
qed

lemma cache_message_terminates:
  assumes "clock s \<noteq> []"
  shows "\<exists>s'. cache_message mp s = Some s' \<and> clock s' = drop 1 (clock s)"
proof -
  from assms obtain t ts where c: "clock s = t # ts" by (cases "clock s") simp_all
  then show ?thesis by (simp add: cache_message_def millis_def Let_def)
qed

lemma millis_reads:
  assumes "clock s \<noteq> []"
  shows "\<exists>t s'. millis s = Some (t, s') \<and> clock s' = drop 1 (clock s) \<and> t = hd (clock s)"
proof -
  from assms obtain t ts where c: "clock s = t # ts" by (cases "clock s") simp_all
  then show ?thesis by (simp add: millis_def)
qed

lemma mesh_process_terminates:
  assumes "3 \<le> length (clock s)"
  shows "\<exists>s' j. mesh_process mp s = Some s' \<and> clock s' = drop j (clock s) \<and> j \<le> 3"
proof (cases "length mp \<ge> 16 \<and> sender_of mp = local_mac_addr s")
  case True
  then have "mesh_process mp s = Some s \<and> clock s = drop 0 (clock s) \<and> (0::nat) \<le> 3"
    by (simp add: mesh_process_def)
  then show ?thesis by blast
next
  case False
  have "\<exists>s1 j. (if length mp \<ge> 16 then track_sender (sender_of mp) s else Some s) = Some s1
      \<and> clock s1 = drop j (clock s) \<and> j \<le> 1"
  proof (cases "length mp \<ge> 16")
    case True
    from assms have "clock s \<noteq> []" by auto
    from track_sender_terminates[OF this, of "sender_of mp"] True show ?thesis by auto
  next
    case False
    then have "(if length mp \<ge> 16 then track_sender (sender_of mp) s else Some s) = Some s
      \<and> clock s = drop 0 (clock s) \<and> (0::nat) \<le> 1" by simp
    then show ?thesis by blast
  qed
  then obtain s1 j where a: "(if length mp \<ge> 16 then track_sender (sender_of mp) s else Some s) = Some s1"
    and c1: "clock s1 = drop j (clock s)" and j: "j \<le> 1" by (elim exE conjE)
  from assms c1 j have "clock s1 \<noteq> []" by auto
  from cache_message_terminates[OF this, of mp] obtain s2 where
    b: "cache_message mp s1 = Some s2" and c2: "clock s2 = drop 1 (clock s1)" by (elim exE conjE)
  from assms c1 c2 j have "clock s2 \<noteq> []" by auto
  from millis_reads[OF this] obtain t s3 where
    c: "millis s2 = Some (t, s3)" and c3: "clock s3 = drop 1 (clock s2)" by (elim exE conjE)
  have r: "mesh_process mp s = Some (s3\<lparr>isMeshDetected := True, lastMeshPacketTime := t\<rparr>)"
    unfolding mesh_process_def if_not_P[OF False] using a b c by simp
  have k: "clock (s3\<lparr>isMeshDetected := True, lastMeshPacketTime := t\<rparr>) = drop (j + 2) (clock s)"
    by (simp add: c3 c2 c1 add.commute)
  from j have "j + 2 \<le> 3" by simp
  with r k show ?thesis by (intro exI conjI)
qed

lemma deliver_mesh_clock: "clock (deliver_mesh evs s) = clock s"
proof -
  have "clock (foldl (\<lambda>st ev. meshSnifferCallback (fst ev) (snd ev) st) s evs) = clock s"
    by (induction evs arbitrary: s) (simp_all add: meshSnifferCallback_def Let_def)
  then show ?thesis by (simp add: deliver_mesh_def)
qed

lemma listen_poll_terminates:
  assumes "3 \<le> length (clock s)"
  shows "\<exists>s' j. listen_poll evs s = Some s' \<and> clock s' = drop j (clock s) \<and> j \<le> 3"
proof (cases "meshQueue (deliver_mesh evs s)")
  case Nil
  then have "listen_poll evs s = Some (deliver_mesh evs s)
      \<and> clock (deliver_mesh evs s) = drop 0 (clock s) \<and> (0::nat) \<le> 3"
    by (simp add: listen_poll_def Let_def deliver_mesh_clock)
  then show ?thesis by blast
next
  case (Cons mp q)
  have "3 \<le> length (clock ((deliver_mesh evs s)\<lparr>meshQueue := q\<rparr>))"
    using assms by (simp add: deliver_mesh_clock)
  from mesh_process_terminates[OF this, of mp] Cons show ?thesis
    by (simp add: listen_poll_def Let_def deliver_mesh_clock)
qed

lemma sorted_drop_bound:
  assumes "sorted_wrt (<) (map unat ts)" "\<forall>t \<in> set ts. L \<le> unat t"
  shows "\<forall>t \<in> set (drop j ts). L + j \<le> unat t"
  using assms
proof (induction j arbitrary: ts L)
  case 0
  then show ?case by simp
next
  case (Suc j)
  show ?case
  proof (cases ts)
    case Nil
    then show ?thesis by simp
  next
    case (Cons t ts')
    with Suc.prems have a: "sorted_wrt (<) (map unat ts')" and b: "\<forall>t' \<in> set ts'. Suc L \<le> unat t'"
      by auto
    from Suc.IH[OF a b] Cons show ?thesis by simp
  qed
qed

lemma listen_loop_terminates:
  assumes "sorted_wrt (<) (map unat (clock s))" "\<forall>t \<in> set (clock s). L \<le> unat t"
    "unat start \<le> L" "4 * (unat start + 100 - L) + 1 \<le> length (clock s)"
    "length (clock s) \<le> n"
  shows "\<exists>s' k. listen_loop n start air s = Some s' \<and> clock s' = drop k (clock s)
           \<and> k \<le> 4 * (unat start + 100 - L) + 1"
  using assms
proof (induction n arbitrary: s L air)
  case 0
  then show ?case by simp
next
  case (Suc n)
  from Suc.prems(4) obtain t ts where c: "clock s = t # ts" by (cases "clock s") simp_all
  define s1 where "s1 = s\<lparr>clock := ts\<rparr>"
  have m: "millis s = Some (t, s1)" by (simp add: millis_def c s1_def)
  from Suc.prems(2,3) c have lt: "L \<le> unat t" and st: "unat start \<le> unat t" by simp_all
  show ?case
  proof (cases "t - start < MESH_CHECK_DURATION_MS")
    case False
    then have "listen_loop (Suc n) start air s = Some s1" using m by simp
    moreover have "clock s1 = drop 1 (clock s)" by (simp add: s1_def c)
    ultimately show ?thesis by (intro exI[of _ s1] exI[of _ 1]) simp
  next
    case True
    then have el: "unat t - unat start < 100"
      using elapsed_less[OF st, of MESH_CHECK_DURATION_MS] by (simp add: MESH_CHECK_DURATION_MS_def)
    with lt st have B: "unat start + 100 - L \<ge> 1" by simp
    with Suc.prems(4) c have "3 \<le> length (clock s1)" by (simp add: s1_def)
    from listen_poll_terminates[OF this, of "case air of [] \<Rightarrow> [] | evs # _ \<Rightarrow> evs"]
    obtain s2 j where p: "listen_poll (case air of [] \<Rightarrow> [] | evs # _ \<Rightarrow> evs) s1 = Some s2"
      and c2: "clock s2 = drop j (clock s1)" and j: "j \<le> 3" by (elim exE conjE)
    have c2': "clock s2 = drop j ts" using c2 by (simp add: s1_def)
    have q1: "sorted_wrt (<) (map unat (clock s2))"
      using Suc.prems(1) c by (simp add: c2' drop_map[symmetric] sorted_wrt_drop)
    have so: "sorted_wrt (<) (map unat ts)" and b0: "\<forall>t' \<in> set ts. Suc (unat t) \<le> unat t'"
      using Suc.prems(1) c by auto
    have q2: "\<forall>t' \<in> set (clock s2). Suc (unat t) + j \<le> unat t'"
      unfolding c2' by (rule sorted_drop_bound[OF so b0])
    have q3: "unat start \<le> Suc (unat t) + j" using st by simp
    have q4: "4 * (unat start + 100 - (Suc (unat t) + j)) + 1 \<le> length (clock s2)"
      using Suc.prems(4) c lt el st j B by (simp add: c2')
    have q5: "length (clock s2) \<le> n" using Suc.prems(5) c by (simp add: c2')
    from Suc.IH[OF q1 q2 q3 q4 q5, of "tl air"] obtain s' k where
      a: "listen_loop n start (tl air) s2 = Some s'" and b: "clock s' = drop k (clock s2)"
      and kk: "k \<le> 4 * (unat start + 100 - (Suc (unat t) + j)) + 1" by (elim exE conjE)
    have a': "listen_loop (Suc n) start air s = Some s'" using m True p a by simp
    have b': "clock s' = drop (k + j + 1) (clock s)" by (simp add: b c2' c add.commute)
    have k': "k + j + 1 \<le> 4 * (unat start + 100 - L) + 1" using kk lt el st j B by simp
    from a' b' k' show ?thesis by (intro exI conjI)
  qed
qed

lemma checkAndListenForMesh_terminates:
  assumes "ticking (n + 403) s"
  shows "\<exists>s'. checkAndListenForMesh air s = Some s' \<and> ticking n s'"
proof -
  from assms have len: "n + 403 \<le> length (clock s)"
    and so: "sorted_wrt (<) (map unat (clock s))" by (simp_all add: ticking_def)
  then obtain start ts where c: "clock s = start # ts" by (cases "clock s") simp_all
  define s1 where "s1 = s\<lparr>radio := radio s @ [SetPromiscuousRxCb CB_meshSnifferCallback,
                                      SetChannel MESH_CHANNEL]\<rparr>"
  define s2 where "s2 = s1\<lparr>clock := ts\<rparr>"
  have m1: "millis s1 = Some (start, s2)" by (simp add: millis_def s1_def s2_def c)
  have p1: "sorted_wrt (<) (map unat (clock s2))" using so c by (simp add: s2_def)
  have p2: "\<forall>t \<in> set (clock s2). Suc (unat start) \<le> unat t" using so c by (auto simp: s2_def)
  have p3: "unat start \<le> Suc (unat start)" by simp
  have p4: "4 * (unat start + 100 - Suc (unat start)) + 1 \<le> length (clock s2)"
    using len c by (simp add: s2_def)
  from listen_loop_terminates[OF p1 p2 p3 p4 order_refl, of air] obtain s3 k where
    a: "listen_loop (length (clock s2)) start air s2 = Some s3"
    and b: "clock s3 = drop k (clock s2)"
    and k: "k \<le> 4 * (unat start + 100 - Suc (unat start)) + 1" by (elim exE conjE)
  from k have k': "k \<le> 397" by simp
  have l3: "clock s3 = drop (Suc k) (clock s)" by (simp add: b s2_def c)
  with len k' have "clock s3 \<noteq> []" by simp
  from millis_reads[OF this] obtain t s4 where
    m4: "millis s3 = Some (t, s4)" and c4: "clock s4 = drop 1 (clock s3)" by (elim exE conjE)
  define s' where "s' = s4\<lparr>meshRadioTime := meshRadioTime s4 + (t - start),
                     radio := radio s4 @ [SetPromiscuousRxCb CB_snifferCallback]\<rparr>"
  have r: "checkAndListenForMesh air s = Some s'"
    unfolding checkAndListenForMesh_def Let_def s1_def[symmetric]
    using m1 a m4 by (simp add: s'_def)
  have "clock s' = drop (k + 2) (clock s)" by (simp add: s'_def c4 l3 add.commute)
  moreover have "ticking (n + 403) s" by (rule assms)
  ultimately have "ticking n s'" using k' by (intro ticking_drop[of n 403 s s' "k + 2"]) simp_all
  with r show ?thesis by (intro exI conjI)
qed

lemma mesh_check_terminates:
  assumes "ticking (n + 405) s"
  shows "\<exists>s'. mesh_check now air s = Some s' \<and> ticking n s'"
proof (cases "now - lastMeshCheckTime s >
      (if isMeshDetected s then MESH_ACTIVE_INTERVAL_MS else MESH_STANDBY_INTERVAL_MS)")
  case False
  then have "mesh_check now air s = Some s" by (simp add: mesh_check_def Let_def)
  moreover have "ticking n s" using assms by (rule ticking_mono) simp
  ultimately show ?thesis by simp
next
  case True
  from assms have "ticking (Suc (n + 404)) s" by (simp add: ticking_def)
  from millis_terminates[OF this] obtain m0 where
    a: "millis s = Some (m0, s\<lparr>clock := tl (clock s)\<rparr>)"
    and t1: "ticking (n + 404) (s\<lparr>clock := tl (clock s)\<rparr>)" by (elim exE conjE)
  from t1 have "ticking (Suc n + 403) (s\<lparr>clock := tl (clock s)\<rparr>)" by (simp add: ticking_def)
  from checkAndListenForMesh_terminates[OF this, of air] obtain s2 where
    b: "checkAndListenForMesh air (s\<lparr>clock := tl (clock s)\<rparr>) = Some s2"
    and t2: "ticking (Suc n) s2" by (elim exE conjE)
  from t2 have "ticking (Suc n) (s2\<lparr>lastMeshCheckTime := now\<rparr>)" by (simp add: ticking_def)
  from millis_terminates[OF this] obtain t where
    c: "millis (s2\<lparr>lastMeshCheckTime := now\<rparr>)
          = Some (t, s2\<lparr>lastMeshCheckTime := now, clock := tl (clock s2)\<rparr>)"
    and t3: "ticking n (s2\<lparr>lastMeshCheckTime := now, clock := tl (clock s2)\<rparr>)"
    by (auto simp: ticking_def)
  define s3 where "s3 = s2\<lparr>lastMeshCheckTime := now, clock := tl (clock s2)\<rparr>"
  have "mesh_check now air s = Some (s3\<lparr>activeTimeTotal := activeTimeTotal s3 + (t - m0)\<rparr>)"
    using True a b c by (simp add: mesh_check_def Let_def s3_def)
  moreover have "ticking n (s3\<lparr>activeTimeTotal := activeTimeTotal s3 + (t - m0)\<rparr>)"
    using t3 by (simp add: ticking_def s3_def)
  ultimately show ?thesis by (intro exI conjI)
qed

lemma processLifecycle_clock: "clock (processLifecycle s) = clock s"
  by (simp add: processLifecycle_def split_def Let_def)

lemma lifecycle_tick_clock: "clock (lifecycle_tick now s) = clock s"
proof -
  have "\<And>x. clock ((processLifecycle ^^ n) x) = clock x" for n
    by (induction n) (simp_all add: processLifecycle_clock)
  then show ?thesis by (simp add: lifecycle_tick_def split_def Let_def)
qed

lemma drain_clock: "clock (drain_ssid_queue now s) = clock s"
proof -
  have "clock (foldl (\<lambda>st slot. learn_ssid now slot st) x q) = clock x" for x q
    by (induction q arbitrary: x) (simp_all add: learn_ssid_def Let_def split_def)
  then show ?thesis by (simp add: drain_ssid_queue_def)
qed

lemma manageResources_clock: "clock (manageResources freeHeap s) = clock s"
  by (simp add: manageResources_def Let_def)

lemma manageMeshResources_clock: "clock (manageMeshResources now s) = clock s"
  by (simp add: manageMeshResources_def)

lemma mesh_decay_clock: "clock (mesh_decay now s) = clock s"
  by (simp add: mesh_decay_def)

lemma loop_head_clock: "clock (mesh_decay now (loop_head freeHeap now s)) = clock s"
  by (simp only: mesh_decay_clock loop_head_def lifecycle_tick_clock manageMeshResources_clock
        manageResources_clock drain_clock)

lemma loop_terminates:
  assumes "ticking (n + 9164) s"
  shows "\<exists>s'. loop c5 freeHeap air s = Some s' \<and> ticking n s'"
proof -
  from assms have "ticking (Suc (n + 9163)) s" by (simp add: ticking_def)
  from millis_terminates[OF this] obtain now where
    a: "millis s = Some (now, s\<lparr>clock := tl (clock s)\<rparr>)"
    and t0: "ticking (n + 9163) (s\<lparr>clock := tl (clock s)\<rparr>)" by (elim exE conjE)
  define s1 where "s1 = mesh_decay now (loop_head freeHeap now (s\<lparr>clock := tl (clock s)\<rparr>))"
  have "clock s1 = clock (s\<lparr>clock := tl (clock s)\<rparr>)" unfolding s1_def by (rule loop_head_clock)
  with t0 have "ticking ((n + 8758) + 405) s1" by (simp add: ticking_def)
  from mesh_check_terminates[OF this, of now air] obtain s2 where
    b: "mesh_check now air s1 = Some s2" and t2: "ticking (n + 8758) s2" by (elim exE conjE)
  have "\<exists>s'. hop_tick c5 now s2 = Some s' \<and> ticking n s'"
  proof (cases "now - lastChannelHop s2 > of_int (nextChannelHopInterval s2)")
    case True
    with channel_hop_terminates[OF t2, of c5 now] show ?thesis by (simp add: hop_tick_def)
  next
    case False
    moreover have "ticking n s2" using t2 by (rule ticking_mono) simp
    ultimately show ?thesis by (simp add: hop_tick_def)
  qed
  then obtain s' where c: "hop_tick c5 now s2 = Some s'" and t3: "ticking n s'"
    by (elim exE conjE)
  have "loop c5 freeHeap air s = Some s'"
    using a b c by (simp add: loop_def loop_tail_def s1_def)
  with t3 show ?thesis by (intro exI conjI)
qed

lemma initSwarm_seq_inv: "seq_inv s \<Longrightarrow> seq_inv (initSwarm heap s)"
  unfolding seq_inv_def initSwarm_def
  by (simp add: populate_seq populate_dormant)

lemma seq_ctl_low:
  assumes "sq < 4096"
  shows "seq_ctl sq = seq_ctl (sq AND 0xFF)"
proof -
  have "sq AND 0xFF \<le> 0xFF" by (rule word_and_le1)
  moreover have "(0xFF :: 16 word) < 4096" by simp
  ultimately have "sq AND 0xFF < 4096" by (rule le_less_trans)
  then have a: "seq_ctl (sq AND 0xFF) ! 1 = 0" by (rule seq_ctl_hi)
  have b: "seq_ctl sq ! 1 = 0" using assms by (rule seq_ctl_hi)
  have c: "seq_ctl sq ! 0 = seq_ctl (sq AND 0xFF) ! 0"
    by (simp add: seq_ctl_def and.assoc)
  have "length (seq_ctl sq) = 2" "length (seq_ctl (sq AND 0xFF)) = 2" by simp_all
  with a b c show ?thesis
    by (intro nth_equalityI) (auto simp: less_Suc_eq numeral_2_eq_2)
qed

section \<open>The second Sequence Control byte\<close>

text \<open>
  Claim C10. Byte 23 of every frame a builder produces is zero. For the probe, the
  authentication, the association and the data builder this holds whenever the device's
  stored sequence number is below 4096, for the beacon builder whenever the sequence
  number it is called with is below 4096 (the scheduler calls it with \<open>random(4096)\<close>),
  and for the noise probe always. For a sequence number below 4096 the two Sequence
  Control bytes are those of its low eight bits, so bits 8 to 11 are not on the wire.
  The bound on the stored sequence numbers holds after the start-up population and is
  kept by every pass of the scheduler loop, and every frame that a pass of the loop
  builds and transmits, for a device, as beacon or as noise, has byte 23 zero.
\<close>

theorem second_seq_ctl_byte_zero:
  "(sequenceNumber vd < 4096 \<longrightarrow>
       fst (buildProbePacket is5 ssids vd channel g) ! 23 = 0
     \<and> buildAuthPacket vd ! 23 = 0
     \<and> buildAssocRequestPacket is5 vd ssid ! 23 = 0
     \<and> fst (buildEncryptedDataPacket vd g) ! 23 = 0)
   \<and> (sq < 4096 \<longrightarrow> buildBeaconPacket is5 m ssid channel sq ! 23 = 0
                     \<and> seq_ctl sq = seq_ctl (sq AND 0xFF))
   \<and> buildBeaconPacket is5 m ssid channel (of_nat (fst (random 4096 g))) ! 23 = 0
   \<and> fst (noise_packet is5 g) ! 23 = 0
   \<and> (seq_inv s \<longrightarrow> seq_inv (initSwarm heap s))
   \<and> (seq_inv s \<and> loop c5 freeHeap air s = Some s' \<longrightarrow>
        seq_inv s'
        \<and> (\<exists>new. radio s' = radio s @ new \<and> list_all (\<lambda>f. f ! 23 = 0) (built_tx new)))"
proof -
  have a: "sequenceNumber vd < 4096 \<longrightarrow>
       fst (buildProbePacket is5 ssids vd channel g) ! 23 = 0
     \<and> buildAuthPacket vd ! 23 = 0
     \<and> buildAssocRequestPacket is5 vd ssid ! 23 = 0
     \<and> fst (buildEncryptedDataPacket vd g) ! 23 = 0"
    using seq_ok_23[of vd] by (simp add: seq_ok_def)
  have b: "sq < 4096 \<longrightarrow> buildBeaconPacket is5 m ssid channel sq ! 23 = 0
                     \<and> seq_ctl sq = seq_ctl (sq AND 0xFF)"
  proof
    assume l: "sq < 4096"
    have "buildBeaconPacket is5 m ssid channel sq ! 23 = 0"
      using seq_ctl_hi[OF l] by (simp only: beacon_23)
    with seq_ctl_low[OF l] show "buildBeaconPacket is5 m ssid channel sq ! 23 = 0
                     \<and> seq_ctl sq = seq_ctl (sq AND 0xFF)" by simp
  qed
  have c: "buildBeaconPacket is5 m ssid channel (of_nat (fst (random 4096 g))) ! 23 = 0"
    using seq_ctl_hi[OF random_4096_lt[of g]] by (simp only: beacon_23)
  have d: "fst (noise_packet is5 g) ! 23 = 0" by (rule noise_packet_23)
  have e: "seq_inv s \<longrightarrow> seq_inv (initSwarm heap s)" by (simp add: initSwarm_seq_inv)
  have f: "seq_inv s \<and> loop c5 freeHeap air s = Some s' \<longrightarrow>
        seq_inv s'
        \<and> (\<exists>new. radio s' = radio s @ new \<and> list_all (\<lambda>f. f ! 23 = 0) (built_tx new))"
    using loop_seq_inv[of c5 freeHeap air s s'] by blast
  from a b c d e f show ?thesis by (intro conjI)
qed

theorem second_seq_ctl_byte_zero_witness:
  "sequenceNumber dev_modern_ios < 4096
   \<and> fst (buildProbePacket False [ssid_Home] dev_modern_ios 1 (\<lambda>i. 50)) ! 23 = 0
   \<and> buildAuthPacket dev_modern_ios ! 23 = 0
   \<and> buildAssocRequestPacket False dev_modern_ios ssid_Home ! 23 = 0
   \<and> fst (buildEncryptedDataPacket dev_modern_ios (\<lambda>i. 50)) ! 23 = 0
   \<and> (0x123 :: 16 word) < 4096
   \<and> buildBeaconPacket False (0x02, 0x11, 0x22, 1, 2, 3) ssid_Home 1 0x123 ! 23 = 0
   \<and> seq_ctl 0x123 = seq_ctl 0x23
   \<and> seq_inv sys_hop
   \<and> seq_inv (initSwarm (\<lambda>i. 100000) sys_hop)
   \<and> (\<exists>s'. loop True 100000 [] sys_hop = Some s' \<and> seq_inv s'
         \<and> (\<exists>new. radio s' = radio sys_hop @ new
               \<and> list_all (\<lambda>f. f ! 23 = 0) (built_tx new)))"
proof -
  have h1: "sequenceNumber dev_modern_ios < 4096" by (simp add: dev_modern_ios_def)
  have h2: "(0x123 :: 16 word) < 4096" by simp
  have h3: "seq_inv sys_hop"
    by (simp add: seq_inv_def sys_hop_def sys0_def seq_ok_def dev_modern_ios_def)
  have "clock sys_hop = clock_1ms" by (simp add: sys_hop_def)
  then have "ticking (21000 - 1000) sys_hop"
    unfolding clock_1ms_def by (rule ticking_upt) simp
  then have "ticking (0 + 9164) sys_hop" by (rule ticking_mono) simp
  from loop_terminates[OF this, of True 100000 "[]"] obtain s' where
    r: "loop True 100000 [] sys_hop = Some s'" by (elim exE conjE)
  note t = second_seq_ctl_byte_zero[where vd = dev_modern_ios and ?is5.0 = False
      and ssids = "[ssid_Home]" and channel = 1 and g = "\<lambda>i. 50" and ssid = ssid_Home
      and sq = "0x123" and m = "(0x02, 0x11, 0x22, 1, 2, 3)" and s = sys_hop
      and heap = "\<lambda>i. 100000" and ?c5.0 = True and freeHeap = 100000 and air = "[]" and s' = s']
  have e: "(0x123 :: 16 word) AND 0xFF = 0x23" by simp
  from t h1 have w1: "fst (buildProbePacket False [ssid_Home] dev_modern_ios 1 (\<lambda>i. 50)) ! 23 = 0"
    "buildAuthPacket dev_modern_ios ! 23 = 0"
    "buildAssocRequestPacket False dev_modern_ios ssid_Home ! 23 = 0"
    "fst (buildEncryptedDataPacket dev_modern_ios (\<lambda>i. 50)) ! 23 = 0" by blast+
  from t h2 have w2: "buildBeaconPacket False (0x02, 0x11, 0x22, 1, 2, 3) ssid_Home 1 0x123 ! 23 = 0"
    "seq_ctl 0x123 = seq_ctl ((0x123 :: 16 word) AND 0xFF)" by blast+
  from w2(2) have w2': "seq_ctl 0x123 = seq_ctl 0x23" by (simp only: e)
  from t h3 have w3: "seq_inv (initSwarm (\<lambda>i. 100000) sys_hop)" by blast
  from t h3 r have w4: "seq_inv s'
        \<and> (\<exists>new. radio s' = radio sys_hop @ new \<and> list_all (\<lambda>f. f ! 23 = 0) (built_tx new))"
    by blast
  with r have w5: "\<exists>s'. loop True 100000 [] sys_hop = Some s' \<and> seq_inv s'
         \<and> (\<exists>new. radio s' = radio sys_hop @ new
               \<and> list_all (\<lambda>f. f ! 23 = 0) (built_tx new))"
    by (intro exI[of _ s'] conjI) simp_all
  from h1 w1 h2 w2(1) w2' h3 w3 w5 show ?thesis by (intro conjI)
qed

section \<open>Mesh decay\<close>









lemma mesh_view_clock [simp]: "mesh_view (s\<lparr>clock := k\<rparr>) = mesh_view s"
  by (simp add: mesh_view_def)














lemma mesh_view_upd [simp]:
  "mesh_view (s\<lparr>radio := r\<rparr>) = mesh_view s"
  "mesh_view (s\<lparr>meshRadioTime := m\<rparr>) = mesh_view s"
  "mesh_view (s\<lparr>lastMeshCheckTime := c\<rparr>) = mesh_view s"
  "mesh_view (s\<lparr>activeTimeTotal := a\<rparr>) = mesh_view s"
  by (simp_all add: mesh_view_def)






















end
